theory Spec2Isabelle
  imports Complex_Main
begin

section \<open>Tensor elements\<close>

text \<open>
  A tensor element is a floating-point value.  The model keeps the special values of
  IEEE arithmetic (the two infinities and NaN), because the checks of the source
  (\<^verbatim>\<open>torch.isnan\<close>) and its comparisons depend on them, and it computes on finite
  values exactly, in the real numbers: rounding, overflow of a finite result and the
  sign of zero are not represented.
\<close>

datatype fval = Fin real | PInf | NInf | NaN

fun isnan :: "fval \<Rightarrow> bool" where
  "isnan NaN = True"
| "isnan _ = False"


text \<open>The sign of a value that is not NaN, and the infinity (or NaN) of a sign.\<close>

fun sg :: "fval \<Rightarrow> real" where
  "sg (Fin a) = sgn a"
| "sg PInf = 1"
| "sg NInf = - 1"
| "sg NaN = 0"

definition inf_of_sign :: "real \<Rightarrow> fval" where
  "inf_of_sign s = (if s = 0 then NaN else if 0 < s then PInf else NInf)"

fun fneg :: "fval \<Rightarrow> fval" where
  "fneg (Fin a) = Fin (- a)"
| "fneg PInf = NInf"
| "fneg NInf = PInf"
| "fneg NaN = NaN"

fun fabs :: "fval \<Rightarrow> fval" where
  "fabs (Fin a) = Fin \<bar>a\<bar>"
| "fabs PInf = PInf"
| "fabs NInf = PInf"
| "fabs NaN = NaN"

fun fadd :: "fval \<Rightarrow> fval \<Rightarrow> fval" where
  "fadd NaN _ = NaN"
| "fadd _ NaN = NaN"
| "fadd (Fin a) (Fin b) = Fin (a + b)"
| "fadd (Fin a) y = y"
| "fadd x (Fin b) = x"
| "fadd PInf PInf = PInf"
| "fadd NInf NInf = NInf"
| "fadd PInf NInf = NaN"
| "fadd NInf PInf = NaN"

definition fsub :: "fval \<Rightarrow> fval \<Rightarrow> fval" where
  "fsub x y = fadd x (fneg y)"

fun fmul :: "fval \<Rightarrow> fval \<Rightarrow> fval" where
  "fmul NaN _ = NaN"
| "fmul _ NaN = NaN"
| "fmul (Fin a) (Fin b) = Fin (a * b)"
| "fmul x y = inf_of_sign (sg x * sg y)"

text \<open>
  Division: a finite nonzero value over zero is an infinity, zero over zero and
  infinity over infinity are NaN, a finite value over an infinity is zero.
\<close>

fun fdiv :: "fval \<Rightarrow> fval \<Rightarrow> fval" where
  "fdiv NaN _ = NaN"
| "fdiv _ NaN = NaN"
| "fdiv (Fin a) (Fin b) = (if b = 0 then inf_of_sign (sgn a) else Fin (a / b))"
| "fdiv (Fin a) y = Fin 0"
| "fdiv x (Fin b) = inf_of_sign (sg x * (if 0 \<le> b then 1 else - 1))"
| "fdiv x y = NaN"

text \<open>Comparison \<^verbatim>\<open><\<close>: false as soon as one side is NaN.\<close>

fun flt :: "fval \<Rightarrow> fval \<Rightarrow> bool" where
  "flt NaN _ = False"
| "flt _ NaN = False"
| "flt (Fin a) (Fin b) = (a < b)"
| "flt NInf NInf = False"
| "flt NInf _ = True"
| "flt PInf _ = False"
| "flt (Fin a) PInf = True"
| "flt (Fin a) NInf = False"



section \<open>Tensors, modules and failures\<close>

datatype dtype = Float16 | BFloat16 | Float32 | Float64

text \<open>
  A one-dimensional tensor and a two-dimensional tensor (its rows), each with its
  element type.  A matrix records its number of columns, which its rows cannot tell
  when there is no row.
\<close>

record vec =
  vdtype :: dtype
  vdata :: "fval list"

record mat =
  mdtype :: dtype
  ncols :: nat
  mrows :: "fval list list"

definition wf_mat :: "mat \<Rightarrow> bool" where
  "wf_mat m = list_all (\<lambda>r. length r = ncols m) (mrows m)"

definition nrows :: "mat \<Rightarrow> nat" where
  "nrows m = length (mrows m)"

text \<open>
  The failures of the source: a failed \<^verbatim>\<open>assert\<close>, the \<^verbatim>\<open>RuntimeError\<close> of a tensor
  operation on shapes or element types that do not fit, and the other exceptions the
  modelled functions raise.
\<close>

datatype error =
  AssertionError | RuntimeError | AttributeError | TypeError | ValueError
  | IndexError | ZeroDivisionError | NotImplementedError | Exception

text \<open>
  The bias of a linear layer: absent (\<^verbatim>\<open>None\<close>), a parameter, or a buffer
  (\<^verbatim>\<open>register_buffer\<close>), which \<^verbatim>\<open>parameters()\<close> does not enumerate.
\<close>

datatype bias_slot = BiasNone | BiasParam vec | BiasBuffer vec

fun bias_vec :: "bias_slot \<Rightarrow> vec option" where
  "bias_vec BiasNone = None"
| "bias_vec (BiasParam b) = Some b"
| "bias_vec (BiasBuffer b) = Some b"

fun set_bias_data :: "bias_slot \<Rightarrow> vec \<Rightarrow> bias_slot" where
  "set_bias_data BiasNone v = BiasNone"
| "set_bias_data (BiasParam b) v = BiasParam v"
| "set_bias_data (BiasBuffer b) v = BiasBuffer v"

record linear =
  in_features :: nat
  out_features :: nat
  weight :: mat
  bias :: bias_slot

record layernorm =
  ln_weight :: vec
  ln_bias :: "vec option"

text \<open>A linear layer as \<^verbatim>\<open>nn.Linear\<close> builds it: the weight has \<open>out_features\<close> rows of
  \<open>in_features\<close> entries and the bias, if any, \<open>out_features\<close> entries.\<close>

definition wf_linear :: "linear \<Rightarrow> bool" where
  "wf_linear fc =
     (wf_mat (weight fc) \<and> ncols (weight fc) = in_features fc
      \<and> nrows (weight fc) = out_features fc
      \<and> (case bias_vec (bias fc) of None \<Rightarrow> True
          | Some b \<Rightarrow> length (vdata b) = out_features fc))"

section \<open>Tensor operations\<close>

text \<open>
  Broadcasting a one-dimensional operand to the length \<open>n\<close> of the tensor an in-place
  operation writes: the lengths agree or the operand has one element; anything else is
  the \<^verbatim>\<open>RuntimeError\<close> of torch.
\<close>

definition bcast :: "nat \<Rightarrow> fval list \<Rightarrow> error + fval list" where
  "bcast n s =
     (if length s = n then Inr s
      else if length s = 1 then Inr (replicate n (hd s))
      else Inl RuntimeError)"

text \<open>\<^verbatim>\<open>v.div_(s)\<close>, \<^verbatim>\<open>v.sub_(s)\<close>, \<^verbatim>\<open>v.add_(s)\<close> on a vector: the element type of \<open>v\<close>
  stays.\<close>

definition vec_inplace :: "(fval \<Rightarrow> fval \<Rightarrow> fval) \<Rightarrow> vec \<Rightarrow> fval list \<Rightarrow> error + vec" where
  "vec_inplace f v s =
     (case bcast (length (vdata v)) s of
        Inl e \<Rightarrow> Inl e
      | Inr s' \<Rightarrow> Inr (v\<lparr>vdata := map2 f (vdata v) s'\<rparr>))"

text \<open>\<^verbatim>\<open>w.div_(s.view(-1, 1))\<close>: row \<open>i\<close> of the weight by entry \<open>i\<close> of \<open>s\<close>.\<close>

definition mat_rows_inplace :: "(fval \<Rightarrow> fval \<Rightarrow> fval) \<Rightarrow> mat \<Rightarrow> fval list \<Rightarrow> error + mat" where
  "mat_rows_inplace f w s =
     (case bcast (nrows w) s of
        Inl e \<Rightarrow> Inl e
      | Inr s' \<Rightarrow> Inr (w\<lparr>mrows := map2 (\<lambda>r x. map (\<lambda>y. f y x) r) (mrows w) s'\<rparr>))"

text \<open>\<^verbatim>\<open>w.mul_(s.view(1, -1))\<close>: column \<open>j\<close> of the weight by entry \<open>j\<close> of \<open>s\<close>.\<close>

definition mat_cols_inplace :: "(fval \<Rightarrow> fval \<Rightarrow> fval) \<Rightarrow> mat \<Rightarrow> fval list \<Rightarrow> error + mat" where
  "mat_cols_inplace f w s =
     (case bcast (ncols w) s of
        Inl e \<Rightarrow> Inl e
      | Inr s' \<Rightarrow> Inr (w\<lparr>mrows := map (\<lambda>r. map2 f r s') (mrows w)\<rparr>))"

text \<open>
  \<^verbatim>\<open>reshape\<close> of a flat, row-major list of elements to two and to three dimensions,
  and the size that \<^verbatim>\<open>-1\<close> stands for: the known sizes must not multiply to zero and
  must divide the number of elements.
\<close>

definition reshape2 :: "nat \<Rightarrow> nat \<Rightarrow> 'a list \<Rightarrow> 'a list list" where
  "reshape2 r c xs = map (\<lambda>i. take c (drop (i * c) xs)) [0..<r]"

definition reshape3 :: "nat \<Rightarrow> nat \<Rightarrow> nat \<Rightarrow> 'a list \<Rightarrow> 'a list list list" where
  "reshape3 a b c xs = map (\<lambda>i. reshape2 b c (take (b * c) (drop (i * (b * c)) xs))) [0..<a]"

definition infer_dim :: "nat \<Rightarrow> nat \<Rightarrow> error + nat" where
  "infer_dim numel known =
     (if known = 0 \<or> numel mod known \<noteq> 0 then Inl RuntimeError else Inr (numel div known))"

text \<open>\<^verbatim>\<open>t_()\<close> and \<^verbatim>\<open>.T\<close>: the transpose of \<open>rows\<close>, which have \<open>nc\<close> entries each.\<close>

definition transpose_rows :: "nat \<Rightarrow> 'a list list \<Rightarrow> 'a list list" where
  "transpose_rows nc rows = map (\<lambda>j. map (\<lambda>r. r ! j) rows) [0..<nc]"

text \<open>
  An out-of-place element-wise operation of a vector \<open>v\<close> with a vector \<open>s\<close>, with
  broadcasting in both directions.
\<close>

definition bcast2 :: "(fval \<Rightarrow> fval \<Rightarrow> fval) \<Rightarrow> fval list \<Rightarrow> fval list \<Rightarrow> error + fval list" where
  "bcast2 f v s =
     (if length v = length s then Inr (map2 f v s)
      else if length s = 1 then Inr (map (\<lambda>x. f x (hd s)) v)
      else if length v = 1 then Inr (map (\<lambda>y. f (hd v) y) s)
      else Inl RuntimeError)"

text \<open>The same for every row of a matrix whose rows have \<open>m\<close> entries; the result has
  rows as wide as the broadcast.\<close>

definition bcast2_rows ::
  "(fval \<Rightarrow> fval \<Rightarrow> fval) \<Rightarrow> nat \<Rightarrow> fval list list \<Rightarrow> fval list \<Rightarrow> error + fval list list" where
  "bcast2_rows f m rows s =
     (if m = length s then Inr (map (\<lambda>r. map2 f r s) rows)
      else if length s = 1 then Inr (map (\<lambda>r. map (\<lambda>x. f x (hd s)) r) rows)
      else if m = 1 then Inr (map (\<lambda>r. map (\<lambda>y. f (hd r) y) s) rows)
      else Inl RuntimeError)"

section \<open>Sequencing of fallible steps\<close>

text \<open>A raised exception ends the function: the steps after it do not run.\<close>

definition then_res :: "error + 'a \<Rightarrow> ('a \<Rightarrow> error + 'b) \<Rightarrow> error + 'b" where
  "then_res r f = (case r of Inl e \<Rightarrow> Inl e | Inr x \<Rightarrow> f x)"

section \<open>Scale fusion between two linear layers\<close>

text \<open>
  The fused-QKV branch of \<^verbatim>\<open>scale_fc_fc\<close> on the weight, statement by statement:
  \<^verbatim>\<open>
  fc1.weight.t_()
  org_shape = fc1.weight.shape
  fc1.weight.data = fc1.weight.data.reshape(org_shape[0] * num_heads, 3, -1)
  value = fc1.weight.data[:, 2, :].reshape(org_shape[0], -1)
  fc1.weight.data[:, 2, :] = value.div(scales.view(-1)).reshape(fc1.weight[:, 2, :].shape)
  fc1.weight.data = fc1.weight.data.reshape(org_shape).t_()
  \<close>
\<close>

definition qkv_weight_div :: "nat \<Rightarrow> mat \<Rightarrow> fval list \<Rightarrow> error + mat" where
  "qkv_weight_div num_heads w scales =
     (let wt = transpose_rows (ncols w) (mrows w);
          org0 = ncols w;
          org1 = nrows w
      in then_res (infer_dim (org0 * org1) (org0 * num_heads * 3)) (\<lambda>d.
         let w3 = reshape3 (org0 * num_heads) 3 d (concat wt);
             sel = map (\<lambda>blk. blk ! 2) w3
         in then_res (infer_dim (org0 * num_heads * d) org0) (\<lambda>m.
            then_res (bcast2_rows fdiv m (reshape2 org0 m (concat sel)) scales) (\<lambda>q.
              if length (concat q) \<noteq> org0 * num_heads * d then Inl RuntimeError
              else
                let new = reshape2 (org0 * num_heads) d (concat q);
                    w3' = map2 (\<lambda>blk r. list_update blk 2 r) w3 new
                in Inr (w\<lparr>mrows :=
                     transpose_rows org1 (reshape2 org0 org1 (concat (concat w3')))\<rparr>)))))"

text \<open>
  The same branch on the bias, with the operation \<open>f\<close> (division here, subtraction in
  \<^verbatim>\<open>shift_fc_fc\<close>):
  \<^verbatim>\<open>
  fc1.bias.data = fc1.bias.data.reshape(num_heads, 3, -1)
  value = fc1.bias.data[:, 2, :].reshape(-1)
  fc1.bias.data[:, 2, :] = value.div(scales.view(-1)).reshape(fc1.bias[:, 2, :].shape)
  fc1.bias.data = fc1.bias.data.reshape(-1)
  \<close>
\<close>

definition qkv_bias_op ::
  "(fval \<Rightarrow> fval \<Rightarrow> fval) \<Rightarrow> nat \<Rightarrow> vec \<Rightarrow> fval list \<Rightarrow> error + vec" where
  "qkv_bias_op f num_heads b s =
     then_res (infer_dim (length (vdata b)) (num_heads * 3)) (\<lambda>d.
       let b3 = reshape3 num_heads 3 d (vdata b);
           val = concat (map (\<lambda>blk. blk ! 2) b3)
       in then_res (bcast2 f val s) (\<lambda>q.
            if length q \<noteq> num_heads * d then Inl RuntimeError
            else
              let new = reshape2 num_heads d q;
                  b3' = map2 (\<lambda>blk r. list_update blk 2 r) b3 new
              in Inr (b\<lparr>vdata := concat (concat b3')\<rparr>)))"

text \<open>
  \<^verbatim>\<open>scale_fc_fc(fc1, fc2, scales)\<close>.  \<open>num_heads\<close> is what
  \<^verbatim>\<open>self.model.get_num_attention_heads()\<close> returns.  The function mutates both layers;
  the model returns them.
\<close>

definition scale_fc_fc :: "nat \<Rightarrow> linear \<Rightarrow> linear \<Rightarrow> vec \<Rightarrow> error + (linear \<times> linear)" where
  "scale_fc_fc num_heads fc1 fc2 scales =
     then_res
       (if out_features fc1 = in_features fc2 * 3 then
          then_res (qkv_weight_div num_heads (weight fc1) (vdata scales)) (\<lambda>w1.
            case bias_vec (bias fc1) of
              None \<Rightarrow> Inr (fc1\<lparr>weight := w1\<rparr>)
            | Some b \<Rightarrow>
                then_res (qkv_bias_op fdiv num_heads b (vdata scales)) (\<lambda>b'.
                  Inr (fc1\<lparr>weight := w1, bias := set_bias_data (bias fc1) b'\<rparr>)))
        else if out_features fc1 \<noteq> in_features fc2 then Inl AssertionError
        else
          then_res
            (case bias_vec (bias fc1) of
               None \<Rightarrow> Inr (bias fc1)
             | Some b \<Rightarrow>
                 then_res (vec_inplace fdiv b (vdata scales)) (\<lambda>b'.
                   Inr (set_bias_data (bias fc1) b')))
            (\<lambda>bs. then_res (mat_rows_inplace fdiv (weight fc1) (vdata scales)) (\<lambda>w1.
                    Inr (fc1\<lparr>weight := w1, bias := bs\<rparr>))))
       (\<lambda>fc1'. then_res (mat_cols_inplace fmul (weight fc2) (vdata scales)) (\<lambda>w2.
                  Inr (fc1', fc2\<lparr>weight := w2\<rparr>)))"

text \<open>A loop whose body can raise: the first exception ends it.\<close>

fun map_res :: "('a \<Rightarrow> error + 'b) \<Rightarrow> 'a list \<Rightarrow> error + 'b list" where
  "map_res f [] = Inr []"
| "map_res f (x # xs) = then_res (f x) (\<lambda>y. then_res (map_res f xs) (\<lambda>ys. Inr (y # ys)))"

fun fold_res :: "('a \<Rightarrow> 's \<Rightarrow> error + 's) \<Rightarrow> 'a list \<Rightarrow> 's \<Rightarrow> error + 's" where
  "fold_res f [] st = Inr st"
| "fold_res f (x # xs) st = then_res (f x st) (fold_res f xs)"

section \<open>Scale fusion between a normalization and linear layers\<close>

text \<open>
  The closing check of \<^verbatim>\<open>scale_ln_fcs\<close> and \<^verbatim>\<open>shift_ln_fcs\<close>:
  \<^verbatim>\<open>
  for p in ln.parameters():
      assert torch.isnan(p).sum() == 0
  for fc in fcs:
      for p in fc.parameters():
          assert torch.isnan(p).sum() == 0
  \<close>
  \<^verbatim>\<open>parameters()\<close> enumerates the weight and a bias that is a parameter.
\<close>

definition nan_count :: "fval list \<Rightarrow> nat" where
  "nan_count p = length (filter isnan p)"

definition ln_parameters :: "layernorm \<Rightarrow> fval list list" where
  "ln_parameters lnorm =
     vdata (ln_weight lnorm) # (case ln_bias lnorm of None \<Rightarrow> [] | Some b \<Rightarrow> [vdata b])"

definition fc_parameters :: "linear \<Rightarrow> fval list list" where
  "fc_parameters fc =
     concat (mrows (weight fc))
       # (case bias fc of BiasParam b \<Rightarrow> [vdata b] | BiasBuffer b \<Rightarrow> [] | BiasNone \<Rightarrow> [])"

definition assert_no_nan :: "fval list list \<Rightarrow> error + unit" where
  "assert_no_nan ps =
     (if list_all (\<lambda>p. nan_count p = 0) ps then Inr () else Inl AssertionError)"

definition check_ln_fcs :: "layernorm \<Rightarrow> linear list \<Rightarrow> error + (layernorm \<times> linear list)" where
  "check_ln_fcs lnorm fcs =
     then_res (assert_no_nan (ln_parameters lnorm)) (\<lambda>_.
       then_res (assert_no_nan (concat (map fc_parameters fcs))) (\<lambda>_. Inr (lnorm, fcs)))"

text \<open>
  \<^verbatim>\<open>scale_ln_fcs(ln, fcs, scales)\<close>:
  \<^verbatim>\<open>
  ln.weight.div_(scales)
  if hasattr(ln, 'bias') and ln.bias is not None:
      ln.bias.div_(scales)
  for fc in fcs:
      fc.weight.mul_(scales.view(1, -1))
  \<close>
  followed by the check.
\<close>

definition scale_ln_fcs ::
  "layernorm \<Rightarrow> linear list \<Rightarrow> vec \<Rightarrow> error + (layernorm \<times> linear list)" where
  "scale_ln_fcs lnorm fcs scales =
     then_res (vec_inplace fdiv (ln_weight lnorm) (vdata scales)) (\<lambda>w.
       then_res
         (case ln_bias lnorm of
            None \<Rightarrow> Inr None
          | Some b \<Rightarrow> then_res (vec_inplace fdiv b (vdata scales)) (\<lambda>b'. Inr (Some b')))
         (\<lambda>b.
           then_res
             (map_res (\<lambda>fc. then_res (mat_cols_inplace fmul (weight fc) (vdata scales))
                              (\<lambda>w2. Inr (fc\<lparr>weight := w2\<rparr>))) fcs)
             (\<lambda>fcs'. check_ln_fcs \<lparr>ln_weight = w, ln_bias = b\<rparr> fcs')))"

section \<open>Shift fusion\<close>

text \<open>The dot product of two rows, and \<^verbatim>\<open>w @ v\<close> for a matrix and a vector: torch
  refuses operands of different element types or of sizes that do not fit, and the
  product has the element type of the operands.\<close>

definition dot :: "fval list \<Rightarrow> fval list \<Rightarrow> fval" where
  "dot xs ys = foldr fadd (map2 fmul xs ys) (Fin 0)"

definition matvec :: "mat \<Rightarrow> vec \<Rightarrow> error + vec" where
  "matvec w v =
     (if mdtype w \<noteq> vdtype v \<or> ncols w \<noteq> length (vdata v) then Inl RuntimeError
      else Inr \<lparr>vdtype = mdtype w, vdata = map (\<lambda>r. dot r (vdata v)) (mrows w)\<rparr>)"

text \<open>
  The fold of a shift into a following layer, in \<^verbatim>\<open>shift_fc_fc\<close>:
  \<^verbatim>\<open>
  if hasattr(fc2, 'bias') and fc2.bias is not None:
      fc2.bias.add_(fc2.weight @ shifts)
  else:
      if hasattr(self, 'use_shift') and self.use_shift:
          del fc2.bias
          fc2.register_buffer('bias', fc2.weight @ shifts)
  \<close>
\<close>

definition fold_shift :: "bool \<Rightarrow> linear \<Rightarrow> vec \<Rightarrow> error + linear" where
  "fold_shift use_shift fc shifts =
     (case bias_vec (bias fc) of
        Some b \<Rightarrow>
          then_res (matvec (weight fc) shifts) (\<lambda>p.
            then_res (vec_inplace fadd b (vdata p)) (\<lambda>b'.
              Inr (fc\<lparr>bias := set_bias_data (bias fc) b'\<rparr>)))
      | None \<Rightarrow>
          if use_shift then
            then_res (matvec (weight fc) shifts) (\<lambda>p. Inr (fc\<lparr>bias := BiasBuffer p\<rparr>))
          else Inr fc)"

text \<open>
  \<^verbatim>\<open>shift_fc_fc(fc1, fc2, shifts)\<close>.  \<open>n_head\<close> is
  \<^verbatim>\<open>self.model.get_model_config().to_dict().get('n_head', None)\<close>; \<^verbatim>\<open>reshape\<close> with
  \<^verbatim>\<open>None\<close> for a size is a \<^verbatim>\<open>TypeError\<close>.
\<close>

definition shift_fc_fc ::
  "nat option \<Rightarrow> bool \<Rightarrow> linear \<Rightarrow> linear \<Rightarrow> vec \<Rightarrow> error + (linear \<times> linear)" where
  "shift_fc_fc n_head use_shift fc1 fc2 shifts =
     then_res
       (if out_features fc1 = in_features fc2 * 3 then
          (case bias_vec (bias fc1) of
             None \<Rightarrow> Inr fc1
           | Some b \<Rightarrow>
               (case n_head of
                  None \<Rightarrow> Inl TypeError
                | Some num_heads \<Rightarrow>
                    then_res (qkv_bias_op fsub num_heads b (vdata shifts)) (\<lambda>b'.
                      Inr (fc1\<lparr>bias := set_bias_data (bias fc1) b'\<rparr>))))
        else if out_features fc1 \<noteq> in_features fc2 then Inl AssertionError
        else
          (case bias_vec (bias fc1) of
             None \<Rightarrow> Inr fc1
           | Some b \<Rightarrow>
               then_res (vec_inplace fsub b (vdata shifts)) (\<lambda>b'.
                 Inr (fc1\<lparr>bias := set_bias_data (bias fc1) b'\<rparr>))))
       (\<lambda>fc1'. then_res (fold_shift use_shift fc2 shifts) (\<lambda>fc2'. Inr (fc1', fc2')))"

text \<open>
  \<^verbatim>\<open>shift_ln_fcs(ln, fcs, shifts)\<close>.  \<open>has_bias\<close> is \<^verbatim>\<open>self.model.has_bias()\<close>; with it,
  \<^verbatim>\<open>ln.bias.sub_\<close> and \<^verbatim>\<open>fc.bias.add_\<close> on a bias that is \<^verbatim>\<open>None\<close> are an
  \<^verbatim>\<open>AttributeError\<close>:
  \<^verbatim>\<open>
  if self.model.has_bias():
      ln.bias.sub_(shifts)
  for fc in fcs:
      if self.model.has_bias():
          fc.bias.add_(fc.weight @ shifts)
      else:
          if hasattr(self, 'use_shift') and self.use_shift:
              del fc.bias
              fc.register_buffer('bias', fc.weight @ shifts)
  \<close>
  followed by the check.
\<close>

definition shift_fc :: "bool \<Rightarrow> bool \<Rightarrow> vec \<Rightarrow> linear \<Rightarrow> error + linear" where
  "shift_fc has_bias use_shift shifts fc =
     (if has_bias then
        (case bias_vec (bias fc) of
           None \<Rightarrow> Inl AttributeError
         | Some b \<Rightarrow>
             then_res (matvec (weight fc) shifts) (\<lambda>p.
               then_res (vec_inplace fadd b (vdata p)) (\<lambda>b'.
                 Inr (fc\<lparr>bias := set_bias_data (bias fc) b'\<rparr>))))
      else if use_shift then
        then_res (matvec (weight fc) shifts) (\<lambda>p. Inr (fc\<lparr>bias := BiasBuffer p\<rparr>))
      else Inr fc)"

definition shift_ln_fcs ::
  "bool \<Rightarrow> bool \<Rightarrow> layernorm \<Rightarrow> linear list \<Rightarrow> vec \<Rightarrow> error + (layernorm \<times> linear list)" where
  "shift_ln_fcs has_bias use_shift lnorm fcs shifts =
     then_res
       (if has_bias then
          (case ln_bias lnorm of
             None \<Rightarrow> Inl AttributeError
           | Some b \<Rightarrow>
               then_res (vec_inplace fsub b (vdata shifts)) (\<lambda>b'. Inr (lnorm\<lparr>ln_bias := Some b'\<rparr>)))
        else Inr lnorm)
       (\<lambda>lnorm'. then_res (map_res (shift_fc has_bias use_shift shifts) fcs) (\<lambda>fcs'.
                 check_ln_fcs lnorm' fcs'))"

section \<open>Dispatch on the preceding operation\<close>

text \<open>The preceding operation of a subset: a linear layer, a normalization, or a module
  of another type.\<close>

datatype prev_module = LinearOp linear | NormOp layernorm | OtherOp

text \<open>\<^verbatim>\<open>apply_scale(scales, prev_op, layers)\<close> and \<^verbatim>\<open>apply_shift(shifts, prev_op, layers)\<close>;
  \<^verbatim>\<open>shifts\<close> may be \<^verbatim>\<open>None\<close>.\<close>

definition apply_scale ::
  "nat \<Rightarrow> vec \<Rightarrow> prev_module list \<Rightarrow> linear list \<Rightarrow> error + (prev_module list \<times> linear list)" where
  "apply_scale num_heads scales prev_op layers =
     (if length prev_op \<noteq> 1 then Inl AssertionError
      else case hd prev_op of
             LinearOp fc1 \<Rightarrow>
               if length layers \<noteq> 1 then Inl AssertionError
               else then_res (scale_fc_fc num_heads fc1 (hd layers) scales)
                      (\<lambda>(fc1', fc2'). Inr ([LinearOp fc1'], [fc2']))
           | NormOp lnorm \<Rightarrow>
               then_res (scale_ln_fcs lnorm layers scales)
                 (\<lambda>(lnorm', fcs'). Inr ([NormOp lnorm'], fcs'))
           | OtherOp \<Rightarrow> Inl NotImplementedError)"

definition apply_shift ::
  "nat option \<Rightarrow> bool \<Rightarrow> bool \<Rightarrow> vec option \<Rightarrow> prev_module list \<Rightarrow> linear list
     \<Rightarrow> error + (prev_module list \<times> linear list)" where
  "apply_shift n_head has_bias use_shift shifts prev_op layers =
     (case shifts of
        None \<Rightarrow> Inr (prev_op, layers)
      | Some t \<Rightarrow>
          if length prev_op \<noteq> 1 then Inl AssertionError
          else case hd prev_op of
                 LinearOp fc1 \<Rightarrow>
                   if length layers \<noteq> 1 then Inl AssertionError
                   else then_res (shift_fc_fc n_head use_shift fc1 (hd layers) t)
                          (\<lambda>(fc1', fc2'). Inr ([LinearOp fc1'], [fc2']))
               | NormOp lnorm \<Rightarrow>
                   then_res (shift_ln_fcs has_bias use_shift lnorm layers t)
                     (\<lambda>(lnorm', fcs'). Inr ([NormOp lnorm'], fcs'))
               | OtherOp \<Rightarrow> Inl NotImplementedError)"

section \<open>Rotation\<close>

text \<open>
  \<^verbatim>\<open>.to(dtype=...)\<close> changes the element type.  The values stay: rounding to the new
  type is not represented.
\<close>

definition mat_to :: "dtype \<Rightarrow> mat \<Rightarrow> mat" where
  "mat_to d m = m\<lparr>mdtype := d\<rparr>"

definition vec_to :: "dtype \<Rightarrow> vec \<Rightarrow> vec" where
  "vec_to d v = v\<lparr>vdtype := d\<rparr>"

text \<open>\<^verbatim>\<open>torch.matmul\<close> of two matrices, and \<^verbatim>\<open>Q.T\<close>.\<close>

definition matmul :: "mat \<Rightarrow> mat \<Rightarrow> error + mat" where
  "matmul a b =
     (if mdtype a \<noteq> mdtype b \<or> ncols a \<noteq> nrows b then Inl RuntimeError
      else Inr \<lparr>mdtype = mdtype a, ncols = ncols b,
                mrows = map (\<lambda>r. map (\<lambda>c. dot r c) (transpose_rows (ncols b) (mrows b)))
                          (mrows a)\<rparr>)"

definition mat_T :: "mat \<Rightarrow> mat" where
  "mat_T q = \<lparr>mdtype = mdtype q, ncols = nrows q, mrows = transpose_rows (ncols q) (mrows q)\<rparr>"

text \<open>
  \<^verbatim>\<open>rotate_pre_layers(pre_layers, Q)\<close>:
  \<^verbatim>\<open>
  for layer in pre_layers:
      dtype = layer.weight.dtype
      W = layer.weight.data.to(device=device, dtype=torch.float64)
      layer.weight.data = torch.matmul(W, Q).to(device='cpu', dtype=dtype)
  \<close>
\<close>

definition rotate_pre_layer :: "mat \<Rightarrow> linear \<Rightarrow> error + linear" where
  "rotate_pre_layer Q layer =
     (let dtype = mdtype (weight layer);
          W = mat_to Float64 (weight layer)
      in then_res (matmul W Q) (\<lambda>p. Inr (layer\<lparr>weight := mat_to dtype p\<rparr>)))"


text \<open>
  \<^verbatim>\<open>rotate_post_layers(post_layers, Q, exact_had)\<close>:
  \<^verbatim>\<open>
  for layer in post_layers:
      dtype = layer.weight.dtype
      W = layer.weight.data.to(device=device, dtype=torch.float64)
      layer.weight.data = torch.matmul(Q.T, W).to(device='cpu', dtype=dtype)
      if exact_had and self.online_rotate:
          apply_exact_had_to_linear(layer, had_dim=-1, output=False)
      if hasattr(layer, 'bias') and layer.bias is not None:
          b = layer.bias.data.to(device=device, dtype=torch.float64)
          layer.bias.data = torch.matmul(Q.T, b).to(device='cpu', dtype=dtype)
  \<close>
  \<^verbatim>\<open>apply_exact_had_to_linear\<close> belongs to \<^verbatim>\<open>hadamard_utils\<close>; it is the parameter
  \<open>exact_had_fn\<close>.
\<close>

definition rotate_post_layer ::
  "(linear \<Rightarrow> error + linear) \<Rightarrow> bool \<Rightarrow> bool \<Rightarrow> mat \<Rightarrow> linear \<Rightarrow> error + linear" where
  "rotate_post_layer exact_had_fn online_rotate exact_had Q layer =
     (let dtype = mdtype (weight layer);
          W = mat_to Float64 (weight layer)
      in then_res (matmul (mat_T Q) W) (\<lambda>p.
           then_res
             (if exact_had \<and> online_rotate then exact_had_fn (layer\<lparr>weight := mat_to dtype p\<rparr>)
              else Inr (layer\<lparr>weight := mat_to dtype p\<rparr>))
             (\<lambda>layer'.
               case bias_vec (bias layer') of
                 None \<Rightarrow> Inr layer'
               | Some b \<Rightarrow>
                   then_res (matvec (mat_T Q) (vec_to Float64 b)) (\<lambda>pb.
                     Inr (layer'\<lparr>bias := set_bias_data (bias layer') (vec_to dtype pb)\<rparr>)))))"



section \<open>Clip search\<close>

text \<open>
  What \<^verbatim>\<open>auto_clip_layer\<close> reads of its object and of the helpers of \<^verbatim>\<open>utils\<close>:
  \<^verbatim>\<open>self.clip_sym\<close>, \<^verbatim>\<open>self.clip_version\<close>, the result of \<^verbatim>\<open>check_w_only\<close> for the layer,
  and the group size of the layer's weight quantizer when its granularity is
  \<^verbatim>\<open>per_group\<close>.
\<close>

record clip_env =
  clip_sym :: bool
  clip_version :: string
  w_only_layer :: bool
  per_group_size :: "nat option"







text \<open>The running state of the search on one batch, one entry per channel and group.\<close>

record search_state =
  min_errs :: "fval list list"
  best_max_val :: "fval list list"
  best_min_val :: "fval list list"

text \<open>
  \<^verbatim>\<open>
  cur_best_idx = err_mean < min_errs
  min_errs[cur_best_idx] = err_mean[cur_best_idx]
  best_max_val[cur_best_idx] = max_val[cur_best_idx]
  best_min_val[cur_best_idx] = min_val[cur_best_idx]
  \<close>
\<close>

definition lt_mask :: "fval list list \<Rightarrow> fval list list \<Rightarrow> bool list list" where
  "lt_mask a b = map2 (map2 flt) a b"

definition masked_assign ::
  "bool list list \<Rightarrow> fval list list \<Rightarrow> fval list list \<Rightarrow> fval list list" where
  "masked_assign idx new old =
     map2 (\<lambda>m (ns, os). map2 (\<lambda>b (x, y). if b then x else y) m (zip ns os)) idx (zip new old)"

definition update_best ::
  "fval list list \<Rightarrow> fval list list \<Rightarrow> fval list list \<Rightarrow> search_state \<Rightarrow> search_state" where
  "update_best err_mean max_val min_val st =
     (let cur_best_idx = lt_mask err_mean (min_errs st)
      in \<lparr>min_errs = masked_assign cur_best_idx err_mean (min_errs st),
          best_max_val = masked_assign cur_best_idx max_val (best_max_val st),
          best_min_val = masked_assign cur_best_idx min_val (best_min_val st)\<rparr>)"

text \<open>
  The shrink level of step \<open>i_s\<close>: \<^verbatim>\<open>1 - i_s / n_grid\<close>, after
  \<^verbatim>\<open>
  if i_s == 0:
      if self.clip_version == 'v2' and not check_w_only(...):
          i_s += eps
  \<close>
\<close>

definition shrink_level :: "clip_env \<Rightarrow> real \<Rightarrow> nat \<Rightarrow> nat \<Rightarrow> real" where
  "shrink_level env eps n_grid i_s =
     (let i_s' = (if i_s = 0 \<and> clip_version env = ''v2'' \<and> \<not> w_only_layer env
                  then 0 + eps else real i_s)
      in 1 - i_s' / real n_grid)"

definition same_shape :: "'a list list \<Rightarrow> 'b list list \<Rightarrow> bool" where
  "same_shape a b = (map length a = map length b)"

text \<open>
  One shrink level.  The error of the level on captured input \<open>i\<close>
  (\<^verbatim>\<open>(cur_out - org_out).pow(2).mean(dim=1).view(min_errs.shape)\<close>) comes from the
  Quantizer, which is outside this file, applied to the weights under the bounds of the
  level: it is the parameter \<open>err_fn\<close>, and \<^verbatim>\<open>view\<close> refuses a result that has not the
  shape of \<^verbatim>\<open>min_errs\<close>.  The errors are summed over the \<open>n_inputs\<close> captured inputs and
  divided by their number; a clip version other than v1 and v2 raises in the loop over
  the inputs (whose reshaping is taken to succeed).
\<close>

definition mean_err ::
  "(nat \<Rightarrow> error + fval list list) \<Rightarrow> nat \<Rightarrow> fval list list \<Rightarrow> error + fval list list" where
  "mean_err err_of n_inputs shape =
     then_res
       (map_res (\<lambda>i. then_res (err_of i) (\<lambda>e.
          if same_shape e shape then Inr e else Inl RuntimeError)) [0..<n_inputs])
       (\<lambda>errs.
          if n_inputs = 0 then Inl ZeroDivisionError
          else Inr (map (map (\<lambda>x. fdiv x (Fin (real n_inputs))))
                 (foldl (map2 (map2 fadd)) (map (map (\<lambda>_. Fin 0)) shape) errs)))"

definition clip_step ::
  "clip_env \<Rightarrow> (fval list list \<Rightarrow> fval list list \<Rightarrow> nat \<Rightarrow> error + fval list list)
     \<Rightarrow> nat \<Rightarrow> nat \<Rightarrow> real \<Rightarrow> fval list list \<Rightarrow> fval list list
     \<Rightarrow> nat \<Rightarrow> search_state \<Rightarrow> error + search_state" where
  "clip_step env err_fn n_inputs n_grid eps org_max_val org_min_val i_s st =
     (let level = shrink_level env eps n_grid i_s;
          max_val = map (map (\<lambda>x. fmul x (Fin level))) org_max_val;
          min_val = (if clip_sym env then map (map fneg) max_val
                     else map (map (\<lambda>x. fmul x (Fin level))) org_min_val)
      in if 0 < n_inputs \<and> clip_version env \<noteq> ''v1'' \<and> clip_version env \<noteq> ''v2''
         then Inl Exception
         else then_res (mean_err (err_fn max_val min_val) n_inputs (min_errs st))
                (\<lambda>err_mean. Inr (update_best err_mean max_val min_val st)))"





section \<open>Applying the clip\<close>




section \<open>Mixed-bit allocation and configuration\<close>

text \<open>\<^verbatim>\<open>str.split(sep)\<close> for a separator of one character.\<close>

fun split_on :: "char \<Rightarrow> string \<Rightarrow> string list" where
  "split_on sep [] = [[]]"
| "split_on sep (c # cs) =
     (if c = sep then [] # split_on sep cs
      else case split_on sep cs of
             [] \<Rightarrow> [[c]]
           | w # ws \<Rightarrow> (c # w) # ws)"

text \<open>
  \<^verbatim>\<open>int(s)\<close> on a string of ASCII characters: white space around, an optional sign,
  then decimal digits, with single underscores allowed between digits; anything else
  is a \<^verbatim>\<open>ValueError\<close>.  (Python also accepts the decimal digits of other scripts, which
  the model, on bytes, does not.)
\<close>

definition is_space :: "char \<Rightarrow> bool" where
  "is_space c = (let n = (of_char c :: nat) in (9 \<le> n \<and> n \<le> 13) \<or> (28 \<le> n \<and> n \<le> 32))"

definition is_digit :: "char \<Rightarrow> bool" where
  "is_digit c = (let n = (of_char c :: nat) in 48 \<le> n \<and> n \<le> 57)"

definition strip :: "string \<Rightarrow> string" where
  "strip s = rev (dropWhile is_space (rev (dropWhile is_space s)))"

fun parse_digits :: "bool \<Rightarrow> nat \<Rightarrow> string \<Rightarrow> nat option" where
  "parse_digits prev acc [] = (if prev then Some acc else None)"
| "parse_digits prev acc (c # cs) =
     (if is_digit c then parse_digits True (acc * 10 + (of_char c - 48)) cs
      else if c = CHR ''_'' \<and> prev then parse_digits False acc cs
      else None)"

definition py_int :: "string \<Rightarrow> error + int" where
  "py_int s =
     (let t = strip s;
          neg = (case t of c # cs \<Rightarrow> c = CHR ''-'' | [] \<Rightarrow> False);
          body = (case t of c # cs \<Rightarrow> if c = CHR ''-'' \<or> c = CHR ''+'' then cs else t | [] \<Rightarrow> [])
      in case parse_digits False 0 body of
           None \<Rightarrow> Inl ValueError
         | Some n \<Rightarrow> Inr (if neg then - int n else int n))"

text \<open>Indexing a list of \<open>n\<close> entries with a Python integer: a negative index counts
  from the end, an index out of range is an \<^verbatim>\<open>IndexError\<close>.\<close>

definition py_index :: "nat \<Rightarrow> int \<Rightarrow> error + nat" where
  "py_index n k =
     (let j = (if k < 0 then k + int n else k)
      in if 0 \<le> j \<and> j < int n then Inr (nat j) else Inl IndexError)"

text \<open>
  A setting of \<^verbatim>\<open>mix_bits\<close>: its layer selectors, \<^verbatim>\<open>do_quant\<close>, and whether it has an
  \<^verbatim>\<open>act\<close> entry.  \<^verbatim>\<open>mix_bits_settings\<close> is the dictionary of the settings under the keys
  \<^verbatim>\<open>setting_0\<close>, \<^verbatim>\<open>setting_1\<close>, ...; the model takes the list of its values in that
  order.  An entry of \<^verbatim>\<open>quantizer_mix_bits\<close> keeps the selectors, \<^verbatim>\<open>do_quant\<close> and, when
  quantizing, \<^verbatim>\<open>w_only_mix_bits\<close> (the Quantizer objects are left out).
\<close>

record mix_bits_setting =
  layer_name :: "string list"
  do_quant :: bool
  has_act :: bool

record quantizer_entry =
  q_layer_name :: "string list"
  q_do_quant :: bool
  q_w_only_mix_bits :: "bool option"

definition quantizer_entry_of :: "mix_bits_setting \<Rightarrow> quantizer_entry" where
  "quantizer_entry_of s =
     \<lparr>q_layer_name = layer_name s, q_do_quant = do_quant s,
      q_w_only_mix_bits = (if do_quant s then Some (\<not> has_act s) else None)\<rparr>"

type_synonym mix_map = "(string \<rightharpoonup> nat) list"

text \<open>\<^verbatim>\<open>self.mix_bits_map[k][n] = i\<close>\<close>

definition assign_block :: "string \<Rightarrow> nat \<Rightarrow> int \<Rightarrow> mix_map \<Rightarrow> error + mix_map" where
  "assign_block n i k m =
     then_res (py_index (length m) k) (\<lambda>j. Inr (m[j := (m ! j)(n \<mapsto> i)]))"

text \<open>
  The body of the loop over the selectors of entry \<open>i\<close>:
  \<^verbatim>\<open>
  n_layeridx = name.split('#')
  assert (len(n_layeridx) == 1 or len(n_layeridx) == 2), ...
  if len(n_layeridx) == 2:
      n = n_layeridx[0]
      layeridx = n_layeridx[1].split('-')
      layeridx = [int(idx) for idx in layeridx]
  else:
      n = n_layeridx[0]
      layeridx = 'all'
  if layeridx == 'all':
      for k in range(self.num_blocks):
          self.mix_bits_map[k][n] = i
  else:
      for k in layeridx:
          self.mix_bits_map[k][n] = i
  \<close>
\<close>

definition assign_selector :: "nat \<Rightarrow> nat \<Rightarrow> string \<Rightarrow> mix_map \<Rightarrow> error + mix_map" where
  "assign_selector num_blocks i name m =
     (let n_layeridx = split_on CHR ''#'' name
      in if length n_layeridx \<noteq> 1 \<and> length n_layeridx \<noteq> 2 then Inl AssertionError
         else if length n_layeridx = 2 then
           then_res (map_res py_int (split_on CHR ''-'' (n_layeridx ! 1))) (\<lambda>layeridx.
             fold_res (assign_block (n_layeridx ! 0) i) layeridx m)
         else fold_res (assign_block (n_layeridx ! 0) i) (map int [0..<num_blocks]) m)"

text \<open>\<^verbatim>\<open>alloc_bits(mix_bits_settings)\<close>: the entries first, then the map, entry by entry in
  the order of the settings.\<close>

definition alloc_bits ::
  "nat \<Rightarrow> mix_map \<Rightarrow> mix_bits_setting list \<Rightarrow> error + (quantizer_entry list \<times> mix_map)" where
  "alloc_bits num_blocks m settings =
     (let quantizer_mix_bits = map quantizer_entry_of settings
      in then_res
           (fold_res (\<lambda>i. fold_res (assign_selector num_blocks i)
                            (q_layer_name (quantizer_mix_bits ! i)))
              [0..<length quantizer_mix_bits] m)
           (\<lambda>m'. Inr (quantizer_mix_bits, m')))"

text \<open>
  Modelled from the spec: the lookup of the quantizer of a layer (\<^verbatim>\<open>get_wquantizer\<close> of
  \<^verbatim>\<open>utils\<close>, which is not in this file) -- "absent entries fall back to the global
  default Quantizer".  \<open>None\<close> stands for the default, \<open>Some i\<close> for entry \<open>i\<close> of
  \<^verbatim>\<open>quantizer_mix_bits\<close>.
\<close>

definition quantizer_choice :: "mix_map \<Rightarrow> nat \<Rightarrow> string \<Rightarrow> nat option" where
  "quantizer_choice m block_idx name = (m ! block_idx) name"




section \<open>Notions of the statements\<close>




text \<open>
  The words of the specification for the scale between two linear layers of equal
  feature dimensions: "divide weight rows (and bias) of the preceding layer by \<open>s\<close>;
  multiply weight columns of the following layer by \<open>s\<close>".
\<close>

definition map_bias :: "(fval list \<Rightarrow> fval list) \<Rightarrow> bias_slot \<Rightarrow> bias_slot" where
  "map_bias g bs =
     (case bias_vec bs of None \<Rightarrow> bs | Some b \<Rightarrow> set_bias_data bs (b\<lparr>vdata := g (vdata b)\<rparr>))"


definition mul_cols_by :: "fval list \<Rightarrow> linear \<Rightarrow> linear" where
  "mul_cols_by s fc =
     fc\<lparr>weight := (weight fc)\<lparr>mrows := map (\<lambda>r. map2 fmul r s) (mrows (weight fc))\<rparr>\<rparr>"

text \<open>A layer without bias of the given real weight, and a vector of the given reals.\<close>

definition linear_of :: "dtype \<Rightarrow> nat \<Rightarrow> real list list \<Rightarrow> linear" where
  "linear_of d n W =
     \<lparr>in_features = n, out_features = length W,
      weight = \<lparr>mdtype = d, ncols = n, mrows = map (map Fin) W\<rparr>, bias = BiasNone\<rparr>"

definition vec_of :: "dtype \<Rightarrow> real list \<Rightarrow> vec" where
  "vec_of d xs = \<lparr>vdtype = d, vdata = map Fin xs\<rparr>"






text \<open>"Not higher": equal or strictly lower.\<close>

definition fle :: "fval \<Rightarrow> fval \<Rightarrow> bool" where
  "fle x y = (x = y \<or> flt x y)"

text \<open>A search on one channel whose group has the extrema \<open>-5\<close> and \<open>5\<close>, symmetric, with
  one captured input and an error that is the distance of the upper bound to \<open>4\<close>.\<close>

definition search_env :: clip_env where
  "search_env = \<lparr>clip_sym = True, clip_version = ''v1'', w_only_layer = True, per_group_size = None\<rparr>"

definition search_err :: "fval list list \<Rightarrow> fval list list \<Rightarrow> nat \<Rightarrow> error + fval list list" where
  "search_err max_val min_val i = Inr (map (map (\<lambda>x. fabs (fsub x (Fin 4)))) max_val)"

definition search_start :: search_state where
  "search_start =
     \<lparr>min_errs = [[Fin 1000000000]], best_max_val = [[Fin 5]], best_min_val = [[Fin (- 5)]]\<rparr>"

definition search_tie :: search_state where
  "search_tie = \<lparr>min_errs = [[Fin 1]], best_max_val = [[Fin 5]], best_min_val = [[Fin (- 5)]]\<rparr>"

text \<open>
  The words of the specification for a selector: the override index \<open>i\<close> is applied to
  the layer name \<open>n\<close> in the blocks whose index is in \<open>S\<close>, and nowhere else.
\<close>

definition assign_in :: "nat set \<Rightarrow> string \<Rightarrow> nat \<Rightarrow> mix_map \<Rightarrow> mix_map" where
  "assign_in S n i m = map2 (\<lambda>k d. if k \<in> S then d(n \<mapsto> i) else d) [0..<length m] m"

text \<open>Two settings on three blocks: the first overrides a layer in the blocks 0 and 2,
  the second overrides another layer everywhere and the first layer in block 2.\<close>

definition two_settings :: "mix_bits_setting list" where
  "two_settings =
     [\<lparr>layer_name = [''block.0.mlp.fc1#0-2''], do_quant = True, has_act = False\<rparr>,
      \<lparr>layer_name = [''fc2'', ''block.0.mlp.fc1#2''], do_quant = True, has_act = True\<rparr>]"







text \<open>
  The packed projection, as the statements describe it.  With \<open>d\<close> the width of a head,
  row \<open>c\<close> of the fused layer belongs to head \<open>c div (3 * d)\<close> and, in the head, to the
  part \<open>(c div d) mod 3\<close> (0, 1, 2 for Q, K, V) at offset \<open>c mod d\<close>; the scale of that
  row is the entry of its head and offset.
\<close>

definition qkv_part :: "nat \<Rightarrow> nat \<Rightarrow> nat" where
  "qkv_part d c = (c div d) mod 3"

definition qkv_scale_index :: "nat \<Rightarrow> nat \<Rightarrow> nat" where
  "qkv_scale_index d c = (c div (3 * d)) * d + c mod d"

definition div_v_rows :: "nat \<Rightarrow> fval list \<Rightarrow> fval list list \<Rightarrow> fval list list" where
  "div_v_rows d s rows =
     map2 (\<lambda>c row. if qkv_part d c = 2 then map (\<lambda>x. fdiv x (s ! qkv_scale_index d c)) row
                     else row)
       [0..<length rows] rows"

definition div_v_entries :: "nat \<Rightarrow> fval list \<Rightarrow> fval list \<Rightarrow> fval list" where
  "div_v_entries d s b =
     map2 (\<lambda>c x. if qkv_part d c = 2 then fdiv x (s ! qkv_scale_index d c) else x)
       [0..<length b] b"

text \<open>A fused projection of twelve output rows on one input, all entries one, with a
  bias, and the layer of input width four that follows it.\<close>

definition fused12 :: linear where
  "fused12 =
     (linear_of Float32 1 [[1], [1], [1], [1], [1], [1], [1], [1], [1], [1], [1], [1]])
       \<lparr>bias := BiasParam (vec_of Float32 [1, 1, 1, 1, 1, 1, 1, 1, 1, 1, 1, 1])\<rparr>"

definition after_fused :: linear where
  "after_fused = linear_of Float32 4 [[1, 1, 1, 1]]"








section \<open>Basic facts\<close>

lemma then_res_simps [simp]:
  "then_res (Inl e) f = Inl e" "then_res (Inr x) f = f x"
  by (simp_all add: then_res_def)

lemma then_res_Inr_iff:
  "then_res r f = Inr y \<longleftrightarrow> (\<exists>x. r = Inr x \<and> f x = Inr y)"
  by (cases r) simp_all

lemma bcast_same [simp]: "length s = n \<Longrightarrow> bcast n s = Inr s"
  by (simp add: bcast_def)










section \<open>The scale between two linear layers of equal feature dimensions\<close>












section \<open>The check after a fusion with a normalization\<close>









section \<open>The running best of the clip search\<close>

lemma flt_trans: "flt x y \<Longrightarrow> flt y z \<Longrightarrow> flt x z"
  by (cases x; cases y; cases z) simp_all

lemma fle_refl: "fle x x"
  by (simp add: fle_def)

lemma fle_trans: "fle x y \<Longrightarrow> fle y z \<Longrightarrow> fle x z"
  by (auto simp: fle_def dest: flt_trans)

lemma same_shape_refl: "same_shape a a"
  by (simp add: same_shape_def)

lemma same_shape_trans: "same_shape a b \<Longrightarrow> same_shape b c \<Longrightarrow> same_shape a c"
  by (simp add: same_shape_def)

lemma same_shape_sym: "same_shape a b \<Longrightarrow> same_shape b a"
  by (simp add: same_shape_def)

lemma same_shape_nth:
  "same_shape a b \<Longrightarrow> length a = length b \<and> (\<forall>i<length b. length (a ! i) = length (b ! i))"
proof -
  assume h: "same_shape a b"
  then have l: "length a = length b"
    unfolding same_shape_def by (metis length_map)
  moreover have "length (a ! i) = length (b ! i)" if "i < length b" for i
  proof -
    have "map length a ! i = map length b ! i" using h by (simp add: same_shape_def)
    then show ?thesis using that l by simp
  qed
  ultimately show ?thesis by simp
qed

lemma same_shapeI:
  "length a = length b \<Longrightarrow> (\<And>i. i < length b \<Longrightarrow> length (a ! i) = length (b ! i))
   \<Longrightarrow> same_shape a b"
  unfolding same_shape_def by (rule nth_equalityI) simp_all

lemma lt_mask_nth:
  "same_shape a b \<Longrightarrow> i < length b \<Longrightarrow> j < length (b ! i)
   \<Longrightarrow> lt_mask a b ! i ! j = flt (a ! i ! j) (b ! i ! j)"
  using same_shape_nth [of a b] by (simp add: lt_mask_def)

lemma lt_mask_shape: "same_shape a b \<Longrightarrow> same_shape (lt_mask a b) b"
  using same_shape_nth [of a b] by (intro same_shapeI) (simp_all add: lt_mask_def)

lemma masked_assign_nth:
  "same_shape idx old \<Longrightarrow> same_shape new old \<Longrightarrow> i < length old \<Longrightarrow> j < length (old ! i)
   \<Longrightarrow> masked_assign idx new old ! i ! j = (if idx ! i ! j then new ! i ! j else old ! i ! j)"
  using same_shape_nth [of idx old] same_shape_nth [of new old]
  by (simp add: masked_assign_def)

lemma masked_assign_shape:
  "same_shape idx old \<Longrightarrow> same_shape new old \<Longrightarrow> same_shape (masked_assign idx new old) old"
  using same_shape_nth [of idx old] same_shape_nth [of new old]
  by (intro same_shapeI) (simp_all add: masked_assign_def)

lemma min_errs_update_le:
  assumes "same_shape err m"
  shows "list_all2 (list_all2 fle) (masked_assign (lt_mask err m) err m) m"
proof -
  note sh = masked_assign_shape [OF lt_mask_shape [OF assms] assms]
  have "fle (masked_assign (lt_mask err m) err m ! i ! j) (m ! i ! j)"
    if "i < length m" "j < length (m ! i)" for i j
    using that assms
    by (simp add: masked_assign_nth lt_mask_shape lt_mask_nth fle_def)
  then show ?thesis
    using same_shape_nth [OF sh] by (simp add: list_all2_conv_all_nth)
qed

lemma map_res_Inr_set:
  "map_res f xs = Inr ys \<Longrightarrow> y \<in> set ys \<Longrightarrow> \<exists>x\<in>set xs. f x = Inr y"
proof (induction xs arbitrary: ys)
  case Nil
  then show ?case by simp
next
  case (Cons x xs)
  then show ?case by (auto simp: then_res_Inr_iff)
qed

lemma sum_shape:
  "\<forall>e\<in>set errs. same_shape e z \<Longrightarrow> same_shape (foldl (map2 (map2 fadd)) z errs) z"
proof (induction errs arbitrary: z)
  case Nil
  then show ?case by (simp add: same_shape_refl)
next
  case (Cons e errs)
  have ez: "same_shape e z" using Cons.prems by simp
  have step: "same_shape (map2 (map2 fadd) z e) z"
    using same_shape_nth [OF ez] by (intro same_shapeI) simp_all
  have "\<forall>e'\<in>set errs. same_shape e' (map2 (map2 fadd) z e)"
    using Cons.prems step by (auto intro: same_shape_trans same_shape_sym)
  from Cons.IH [OF this] step show ?case
    by (auto intro: same_shape_trans)
qed

lemma mean_err_shape:
  assumes "mean_err err_of n_inputs shape = Inr e"
  shows "same_shape e shape"
proof -
  let ?chk = "\<lambda>i. then_res (err_of i) (\<lambda>e. if same_shape e shape then Inr e else Inl RuntimeError)"
  obtain errs where errs: "map_res ?chk [0..<n_inputs] = Inr errs"
    and e: "e = map (map (\<lambda>x. fdiv x (Fin (real n_inputs))))
                 (foldl (map2 (map2 fadd)) (map (map (\<lambda>_. Fin 0)) shape) errs)"
    using assms by (auto simp: mean_err_def then_res_Inr_iff split: if_splits)
  let ?z = "map (map (\<lambda>_. Fin 0)) shape"
  have z: "same_shape ?z shape" by (simp add: same_shape_def comp_def)
  have "same_shape x shape" if "x \<in> set errs" for x
    using map_res_Inr_set [OF errs that] by (auto simp: then_res_Inr_iff split: if_splits)
  then have "\<forall>x\<in>set errs. same_shape x ?z"
    using z by (auto intro: same_shape_trans same_shape_sym)
  from sum_shape [OF this] have "same_shape (foldl (map2 (map2 fadd)) ?z errs) shape"
    using z by (auto intro: same_shape_trans)
  then show ?thesis by (simp add: e same_shape_def comp_def)
qed

lemma clip_step_le:
  assumes "clip_step env err_fn n_inputs n_grid eps org_max_val org_min_val i_s st = Inr st'"
  shows "list_all2 (list_all2 fle) (min_errs st') (min_errs st)"
proof -
  obtain err_mean max_val min_val where
    m: "mean_err (err_fn max_val min_val) n_inputs (min_errs st) = Inr err_mean"
    and st': "st' = update_best err_mean max_val min_val st"
    using assms by (auto simp: clip_step_def Let_def then_res_Inr_iff split: if_splits)
  show ?thesis
    using min_errs_update_le [OF mean_err_shape [OF m]]
    by (simp add: st' update_best_def Let_def)
qed

lemma list_all2_fle_refl: "list_all2 (list_all2 fle) a a"
  by (simp add: list_all2_refl fle_refl)

lemma list_all2_fle_row_trans:
  assumes "list_all2 fle a b" "list_all2 fle b c"
  shows "list_all2 fle a c"
  by (rule list_all2_trans [OF _ assms]) (rule fle_trans)

lemma list_all2_fle_trans:
  assumes "list_all2 (list_all2 fle) a b" "list_all2 (list_all2 fle) b c"
  shows "list_all2 (list_all2 fle) a c"
  by (rule list_all2_trans [OF _ assms]) (rule list_all2_fle_row_trans)

lemma levels_le:
  "fold_res (clip_step env err_fn n_inputs n_grid eps org_max_val org_min_val) levels st = Inr st'
   \<Longrightarrow> list_all2 (list_all2 fle) (min_errs st') (min_errs st)"
proof (induction levels arbitrary: st)
  case Nil
  then show ?case by (simp add: list_all2_fle_refl)
next
  case (Cons i levels)
  then obtain st1 where
    s1: "clip_step env err_fn n_inputs n_grid eps org_max_val org_min_val i st = Inr st1"
    and s2: "fold_res (clip_step env err_fn n_inputs n_grid eps org_max_val org_min_val) levels st1
               = Inr st'"
    by (auto simp: then_res_Inr_iff)
  from Cons.IH [OF s2] clip_step_le [OF s1] show ?case
    by (rule list_all2_fle_trans)
qed

text \<open>
  C6.  Whatever levels are evaluated, from whatever state of the search, the recorded
  minimum error of every channel and group ends not higher than it was.  At one level,
  with the error, the bounds of the level and the three tables of the same shape, an
  entry of a table is replaced exactly where the error of the level is strictly below
  the recorded one, and kept elsewhere: on a tie the earlier bound stays.
\<close>

theorem clip_search_keeps_strictly_better:
  "(fold_res (clip_step env err_fn n_inputs n_grid eps org_max_val org_min_val) levels st = Inr st'
      \<longrightarrow> list_all2 (list_all2 fle) (min_errs st') (min_errs st))
   \<and> (same_shape err_mean (min_errs s) \<and> same_shape max_val (min_errs s)
       \<and> same_shape min_val (min_errs s) \<and> same_shape (best_max_val s) (min_errs s)
       \<and> same_shape (best_min_val s) (min_errs s)
       \<and> i < length (min_errs s) \<and> j < length (min_errs s ! i)
      \<longrightarrow> min_errs (update_best err_mean max_val min_val s) ! i ! j
            = (if flt (err_mean ! i ! j) (min_errs s ! i ! j) then err_mean ! i ! j
               else min_errs s ! i ! j)
          \<and> best_max_val (update_best err_mean max_val min_val s) ! i ! j
            = (if flt (err_mean ! i ! j) (min_errs s ! i ! j) then max_val ! i ! j
               else best_max_val s ! i ! j)
          \<and> best_min_val (update_best err_mean max_val min_val s) ! i ! j
            = (if flt (err_mean ! i ! j) (min_errs s ! i ! j) then min_val ! i ! j
               else best_min_val s ! i ! j))"
proof (intro conjI impI)
  assume "fold_res (clip_step env err_fn n_inputs n_grid eps org_max_val org_min_val) levels st
            = Inr st'"
  then show "list_all2 (list_all2 fle) (min_errs st') (min_errs st)"
    by (rule levels_le)
next
  assume h: "same_shape err_mean (min_errs s) \<and> same_shape max_val (min_errs s)
       \<and> same_shape min_val (min_errs s) \<and> same_shape (best_max_val s) (min_errs s)
       \<and> same_shape (best_min_val s) (min_errs s)
       \<and> i < length (min_errs s) \<and> j < length (min_errs s ! i)"
  then have e: "same_shape err_mean (min_errs s)" and ij: "i < length (min_errs s)"
    "j < length (min_errs s ! i)" by simp_all
  note mk = lt_mask_shape [OF e]
  show "min_errs (update_best err_mean max_val min_val s) ! i ! j
            = (if flt (err_mean ! i ! j) (min_errs s ! i ! j) then err_mean ! i ! j
               else min_errs s ! i ! j)"
    using e ij mk by (simp add: update_best_def Let_def masked_assign_nth lt_mask_nth)
  have bm: "same_shape (best_max_val s) (min_errs s)" and mx: "same_shape max_val (min_errs s)"
    using h by simp_all
  have ij': "i < length (best_max_val s)" "j < length (best_max_val s ! i)"
    using same_shape_nth [OF bm] ij by simp_all
  show "best_max_val (update_best err_mean max_val min_val s) ! i ! j
            = (if flt (err_mean ! i ! j) (min_errs s ! i ! j) then max_val ! i ! j
               else best_max_val s ! i ! j)"
    using e ij ij' mk bm mx
    by (simp add: update_best_def Let_def lt_mask_nth
          masked_assign_nth [OF same_shape_trans [OF mk same_shape_sym [OF bm]]
                                same_shape_trans [OF mx same_shape_sym [OF bm]]])
  have bn: "same_shape (best_min_val s) (min_errs s)" and mn: "same_shape min_val (min_errs s)"
    using h by simp_all
  have ij'': "i < length (best_min_val s)" "j < length (best_min_val s ! i)"
    using same_shape_nth [OF bn] ij by simp_all
  show "best_min_val (update_best err_mean max_val min_val s) ! i ! j
            = (if flt (err_mean ! i ! j) (min_errs s ! i ! j) then min_val ! i ! j
               else best_min_val s ! i ! j)"
    using e ij ij'' mk bn mn
    by (simp add: update_best_def Let_def lt_mask_nth
          masked_assign_nth [OF same_shape_trans [OF mk same_shape_sym [OF bn]]
                                same_shape_trans [OF mn same_shape_sym [OF bn]]])
qed

lemma search_example_run:
  "fold_res (clip_step search_env search_err 1 20 0 [[Fin 5]] [[Fin (- 5)]]) [0, 1, 2, 3, 4, 5, 6]
     search_start
   = Inr \<lparr>min_errs = [[Fin 0]], best_max_val = [[Fin 4]], best_min_val = [[Fin (- 4)]]\<rparr>"
  by (simp add: clip_step_def shrink_level_def search_env_def search_err_def search_start_def
        mean_err_def same_shape_def update_best_def lt_mask_def masked_assign_def fsub_def
        upt_rec)

theorem clip_search_example:
  "fold_res (clip_step search_env search_err 1 20 0 [[Fin 5]] [[Fin (- 5)]]) [0, 1, 2, 3, 4, 5, 6]
     search_start
   = Inr \<lparr>min_errs = [[Fin 0]], best_max_val = [[Fin 4]], best_min_val = [[Fin (- 4)]]\<rparr>
   \<and> list_all2 (list_all2 fle) [[Fin 0]] (min_errs search_start)
   \<and> same_shape [[Fin 1]] (min_errs search_tie) \<and> same_shape [[Fin 4]] (min_errs search_tie)
   \<and> same_shape [[Fin (- 4)]] (min_errs search_tie)
   \<and> same_shape (best_max_val search_tie) (min_errs search_tie)
   \<and> same_shape (best_min_val search_tie) (min_errs search_tie)
   \<and> 0 < length (min_errs search_tie) \<and> 0 < length (min_errs search_tie ! 0)
   \<and> best_max_val (update_best [[Fin 1]] [[Fin 4]] [[Fin (- 4)]] search_tie) ! 0 ! 0 = Fin 5
   \<and> best_min_val (update_best [[Fin 1]] [[Fin 4]] [[Fin (- 4)]] search_tie) ! 0 ! 0 = Fin (- 5)
   \<and> min_errs (update_best [[Fin 1]] [[Fin 4]] [[Fin (- 4)]] search_tie) ! 0 ! 0 = Fin 1"
  using clip_search_keeps_strictly_better
          [of search_env search_err 1 20 0 "[[Fin 5]]" "[[Fin (- 5)]]" "[0, 1, 2, 3, 4, 5, 6]"
              search_start
              "\<lparr>min_errs = [[Fin 0]], best_max_val = [[Fin 4]], best_min_val = [[Fin (- 4)]]\<rparr>"
              "[[Fin 1]]" search_tie "[[Fin 4]]" "[[Fin (- 4)]]" 0 0]
        search_example_run
  by (simp add: search_tie_def search_start_def same_shape_def fle_def)

section \<open>The batches of output channels\<close>









section \<open>Mixed-bit selectors\<close>

lemma split_on_no_sep: "sep \<notin> set s \<Longrightarrow> split_on sep s = [s]"
  by (induction s) auto

lemma split_on_first: "sep \<notin> set a \<Longrightarrow> split_on sep (a @ sep # b) = a # split_on sep b"
  by (induction a) auto

lemma then_res_return: "then_res r (fold_res f []) = r"
  by (cases r) simp_all

lemma split_on_not_Nil: "split_on sep s \<noteq> []"
  by (induction s) (simp_all split: list.splits)

lemma length_assign_in [simp]: "length (assign_in S n i m) = length m"
  by (simp add: assign_in_def)

lemma assign_in_nth:
  "k < length m \<Longrightarrow> assign_in S n i m ! k = (if k \<in> S then (m ! k)(n \<mapsto> i) else m ! k)"
  by (simp add: assign_in_def)

lemma assign_in_empty: "assign_in {} n i m = m"
  by (rule nth_equalityI) (simp_all add: assign_in_nth)

lemma assign_in_update:
  "k < length m \<Longrightarrow> assign_in S n i (m[k := (m ! k)(n \<mapsto> i)]) = assign_in (insert k S) n i m"
  by (rule nth_equalityI) (auto simp: assign_in_nth nth_list_update)

lemma assign_block_nat:
  "k < length m \<Longrightarrow> assign_block n i (int k) m = Inr (m[k := (m ! k)(n \<mapsto> i)])"
  by (simp add: assign_block_def py_index_def)

lemma assign_blocks:
  "\<forall>k\<in>set ks. 0 \<le> k \<and> k < int (length m) \<Longrightarrow>
   fold_res (assign_block n i) ks m = Inr (assign_in (nat ` set ks) n i m)"
proof (induction ks arbitrary: m)
  case Nil
  then show ?case by (simp add: assign_in_empty)
next
  case (Cons k ks)
  then have k: "nat k < length m" and kk: "int (nat k) = k" by auto
  let ?m = "m[nat k := (m ! nat k)(n \<mapsto> i)]"
  have step: "assign_block n i k m = Inr ?m"
    using assign_block_nat [OF k, of n i] kk by simp
  have "fold_res (assign_block n i) ks ?m = Inr (assign_in (nat ` set ks) n i ?m)"
    using Cons.prems by (intro Cons.IH) simp
  then show ?case
    using step assign_in_update [OF k] by simp
qed

lemma assign_all_blocks:
  "fold_res (assign_block n i) (map int [0..<length m]) m = Inr (assign_in {..<length m} n i m)"
proof -
  have "nat ` set (map int [0..<length m]) = {..<length m}"
    by (auto simp: image_iff)
  then show ?thesis
    using assign_blocks [of "map int [0..<length m]" m n i] by auto
qed

lemma fold_res_append:
  "fold_res f (xs @ ys) st = then_res (fold_res f xs st) (fold_res f ys)"
proof (induction xs arbitrary: st)
  case Nil
  then show ?case by simp
next
  case (Cons x xs)
  then show ?case by (cases "f x st") simp_all
qed

lemma fold_res_cong:
  "(\<And>x. x \<in> set xs \<Longrightarrow> f x = g x) \<Longrightarrow> fold_res f xs st = fold_res g xs st"
proof (induction xs arbitrary: st)
  case Nil
  then show ?case by simp
next
  case (Cons x xs)
  then show ?case by (cases "g x st") simp_all
qed

lemma alloc_bits_snoc:
  "alloc_bits num_blocks m (ss @ [s])
   = then_res (alloc_bits num_blocks m ss) (\<lambda>(q, m1).
       then_res (fold_res (assign_selector num_blocks (length ss)) (layer_name s) m1) (\<lambda>m2.
         Inr (q @ [quantizer_entry_of s], m2)))"
proof -
  let ?q = "map quantizer_entry_of ss"
  let ?f = "\<lambda>q i. fold_res (assign_selector num_blocks i) (q_layer_name (q ! i))"
  have cong: "fold_res (?f (?q @ [quantizer_entry_of s])) [0..<length ss] m
              = fold_res (?f ?q) [0..<length ss] m"
    by (rule fold_res_cong) (simp add: nth_append)
  have last: "q_layer_name ((?q @ [quantizer_entry_of s]) ! length ss) = layer_name s"
    by (simp add: nth_append quantizer_entry_of_def)
  show ?thesis
    using cong last
    by (cases "fold_res (?f ?q) [0..<length ss] m")
       (simp_all add: alloc_bits_def Let_def fold_res_append then_res_return)
qed

text \<open>
  C8.  A selector without \<open>#\<close> assigns the index of its setting to its name in every
  block.  A selector \<open>n#r\<close>, where \<open>r\<close> splits at \<open>-\<close> into integers that index blocks,
  assigns it to \<open>n\<close> in these blocks and changes no other entry.  The settings are
  processed in the order of the list, each on the map the earlier ones have left, so
  the assignments of a later setting replace those of an earlier one at the same block
  and name.
\<close>

theorem alloc_bits_selectors:
  "(CHR ''#'' \<notin> set n \<and> length m = num_blocks
      \<longrightarrow> assign_selector num_blocks i n m = Inr (assign_in {..<num_blocks} n i m))
   \<and> (CHR ''#'' \<notin> set n \<and> CHR ''#'' \<notin> set r
       \<and> map_res py_int (split_on CHR ''-'' r) = Inr ks
       \<and> (\<forall>k\<in>set ks. 0 \<le> k \<and> k < int (length m))
      \<longrightarrow> assign_selector num_blocks i (n @ CHR ''#'' # r) m
            = Inr (assign_in (nat ` set ks) n i m))
   \<and> (k < length m
      \<longrightarrow> assign_in S n i m ! k = (if k \<in> S then (m ! k)(n \<mapsto> i) else m ! k))
   \<and> alloc_bits num_blocks m (ss @ [s])
     = then_res (alloc_bits num_blocks m ss) (\<lambda>(q, m1).
         then_res (fold_res (assign_selector num_blocks (length ss)) (layer_name s) m1) (\<lambda>m2.
           Inr (q @ [quantizer_entry_of s], m2)))"
proof (intro conjI impI)
  assume "CHR ''#'' \<notin> set n \<and> length m = num_blocks"
  then show "assign_selector num_blocks i n m = Inr (assign_in {..<num_blocks} n i m)"
    using assign_all_blocks [of n i m]
    by (auto simp: assign_selector_def Let_def split_on_no_sep)
next
  assume h: "CHR ''#'' \<notin> set n \<and> CHR ''#'' \<notin> set r
       \<and> map_res py_int (split_on CHR ''-'' r) = Inr ks
       \<and> (\<forall>k\<in>set ks. 0 \<le> k \<and> k < int (length m))"
  then have sp: "split_on CHR ''#'' (n @ CHR ''#'' # r) = [n, r]"
    by (simp add: split_on_first split_on_no_sep)
  show "assign_selector num_blocks i (n @ CHR ''#'' # r) m = Inr (assign_in (nat ` set ks) n i m)"
    using h assign_blocks [of ks m n i]
    by (simp add: assign_selector_def Let_def sp)
next
  assume "k < length m"
  then show "assign_in S n i m ! k = (if k \<in> S then (m ! k)(n \<mapsto> i) else m ! k)"
    by (rule assign_in_nth)
next
  show "alloc_bits num_blocks m (ss @ [s])
     = then_res (alloc_bits num_blocks m ss) (\<lambda>(q, m1).
         then_res (fold_res (assign_selector num_blocks (length ss)) (layer_name s) m1) (\<lambda>m2.
           Inr (q @ [quantizer_entry_of s], m2)))"
    by (rule alloc_bits_snoc)
qed

lemma two_settings_run:
  "(case alloc_bits 3 ([Map.empty, Map.empty, Map.empty]) two_settings of
      Inl e \<Rightarrow> False
    | Inr (q, m) \<Rightarrow>
        map (\<lambda>d. d ''block.0.mlp.fc1'') m = [Some 0, None, Some 1]
        \<and> map (\<lambda>d. d ''fc2'') m = [Some 1, Some 1, Some 1]
        \<and> map (\<lambda>b. quantizer_choice m b ''block.0.mlp.fc1'') [0, 1, 2] = [Some 0, None, Some 1])"
  by (simp add: two_settings_def alloc_bits_def quantizer_entry_of_def assign_selector_def
        assign_block_def py_index_def py_int_def strip_def is_space_def is_digit_def
        quantizer_choice_def Let_def upt_rec eval_nat_numeral)

theorem alloc_bits_selectors_example:
  "CHR ''#'' \<notin> set ''block.0.mlp.fc1'' \<and> CHR ''#'' \<notin> set ''0-2''
   \<and> map_res py_int (split_on CHR ''-'' ''0-2'') = Inr [0, 2]
   \<and> assign_selector 3 7 ''block.0.mlp.fc1#0-2'' ([Map.empty, Map.empty, Map.empty])
       = Inr (assign_in {0, 2} ''block.0.mlp.fc1'' 7 ([Map.empty, Map.empty, Map.empty]))
   \<and> map (\<lambda>d. d ''block.0.mlp.fc1'')
        (assign_in {0, 2} ''block.0.mlp.fc1'' 7 ([Map.empty, Map.empty, Map.empty]))
       = [Some 7, None, Some 7]
   \<and> CHR ''#'' \<notin> set ''fc2''
   \<and> assign_selector 3 7 ''fc2'' ([Map.empty, Map.empty, Map.empty])
       = Inr (assign_in {..<3} ''fc2'' 7 ([Map.empty, Map.empty, Map.empty]))
   \<and> map (\<lambda>d. d ''fc2'') (assign_in {..<3} ''fc2'' 7 ([Map.empty, Map.empty, Map.empty]))
       = [Some 7, Some 7, Some 7]
   \<and> (case alloc_bits 3 ([Map.empty, Map.empty, Map.empty]) two_settings of
        Inl e \<Rightarrow> False
      | Inr (q, m) \<Rightarrow>
          map (\<lambda>d. d ''block.0.mlp.fc1'') m = [Some 0, None, Some 1]
          \<and> map (\<lambda>d. d ''fc2'') m = [Some 1, Some 1, Some 1]
          \<and> map (\<lambda>b. quantizer_choice m b ''block.0.mlp.fc1'') [0, 1, 2]
              = [Some 0, None, Some 1])"
  using alloc_bits_selectors
          [where n = "''block.0.mlp.fc1''" and r = "''0-2''" and ks = "[0, 2]"
             and m = "[Map.empty, Map.empty, Map.empty]" and num_blocks = 3 and i = 7]
        alloc_bits_selectors
          [where n = "''fc2''" and m = "[Map.empty, Map.empty, Map.empty]" and num_blocks = 3 and i = 7]
        two_settings_run
  by (simp add: py_int_def strip_def is_space_def is_digit_def assign_in_def upt_rec
        eval_nat_numeral)

section \<open>Failures of the configuration\<close>








section \<open>The element type of the shift fold\<close>









section \<open>Reshaping\<close>

lemma idx_bound: "i < r \<Longrightarrow> j < c \<Longrightarrow> i * c + j < r * (c::nat)"
proof -
  assume h: "i < r" "j < c"
  have "i * c + j < Suc i * c" using h(2) by simp
  also have "\<dots> \<le> r * c" using h(1) by (intro mult_le_mono1) simp
  finally show ?thesis .
qed

lemma length_reshape2 [simp]: "length (reshape2 r c xs) = r"
  by (simp add: reshape2_def)

lemma reshape2_row:
  "i < r \<Longrightarrow> reshape2 r c xs ! i = take c (drop (i * c) xs)"
  by (simp add: reshape2_def)

lemma reshape2_row_length:
  assumes "i < r" "r * c \<le> length xs"
  shows "length (reshape2 r c xs ! i) = c"
proof -
  have "Suc i * c \<le> r * c" using assms(1) by (intro mult_le_mono1) simp
  then have "i * c + c \<le> length xs" using assms(2) by simp
  then show ?thesis using assms(1) by (simp add: reshape2_row)
qed

lemma reshape2_nth:
  assumes "i < r" "j < c" "r * c \<le> length xs"
  shows "reshape2 r c xs ! i ! j = xs ! (i * c + j)"
proof -
  have "i * c + j < length xs" using idx_bound [OF assms(1,2)] assms(3) by simp
  then show ?thesis using assms(1,2) by (simp add: reshape2_row)
qed

lemma length_reshape3 [simp]: "length (reshape3 a b c xs) = a"
  by (simp add: reshape3_def)

lemma reshape3_block:
  "i < a \<Longrightarrow> reshape3 a b c xs ! i = reshape2 b c (take (b * c) (drop (i * (b * c)) xs))"
  by (simp add: reshape3_def)

lemma reshape3_block_length: "i < a \<Longrightarrow> length (reshape3 a b c xs ! i) = b"
  by (simp add: reshape3_block)

lemma reshape3_chunk:
  assumes "i < a" "a * (b * c) \<le> length xs"
  shows "length (take (b * c) (drop (i * (b * c)) xs)) = b * c"
proof -
  have "Suc i * (b * c) \<le> a * (b * c)" using assms(1) by (intro mult_le_mono1) simp
  then have "i * (b * c) + b * c \<le> length xs" using assms(2) by simp
  then show ?thesis by simp
qed

lemma reshape3_row_length:
  assumes "i < a" "k < b" "a * (b * c) \<le> length xs"
  shows "length (reshape3 a b c xs ! i ! k) = c"
  using assms reshape3_chunk [OF assms(1,3)]
  by (simp add: reshape3_block reshape2_row_length)

lemma reshape3_nth:
  assumes "i < a" "k < b" "e < c" "a * (b * c) \<le> length xs"
  shows "reshape3 a b c xs ! i ! k ! e = xs ! (i * (b * c) + k * c + e)"
proof -
  have len: "length (take (b * c) (drop (i * (b * c)) xs)) = b * c"
    by (rule reshape3_chunk [OF assms(1,4)])
  have kb: "k * c + e < b * c" by (rule idx_bound [OF assms(2,3)])
  have "reshape3 a b c xs ! i ! k ! e = take (b * c) (drop (i * (b * c)) xs) ! (k * c + e)"
    using assms len by (simp add: reshape3_block reshape2_nth)
  also have "\<dots> = xs ! (i * (b * c) + (k * c + e))"
    using kb len by simp
  finally show ?thesis by (simp add: add.assoc)
qed

lemma concat_uniform_length:
  "\<forall>r\<in>set xss. length r = c \<Longrightarrow> length (concat xss) = length xss * c"
  by (induction xss) simp_all

lemma concat_uniform_nth:
  "\<forall>r\<in>set xss. length r = c \<Longrightarrow> i < length xss \<Longrightarrow> j < c
   \<Longrightarrow> concat xss ! (i * c + j) = xss ! i ! j"
proof (induction xss arbitrary: i)
  case Nil
  then show ?case by simp
next
  case (Cons xs xss)
  show ?case
  proof (cases i)
    case 0
    then show ?thesis using Cons.prems by (simp add: nth_append)
  next
    case (Suc i')
    then have "concat xss ! (i' * c + j) = xss ! i' ! j"
      using Cons.prems by (intro Cons.IH) simp_all
    then show ?thesis using Cons.prems Suc by (simp add: nth_append)
  qed
qed

lemma length_transpose_rows [simp]: "length (transpose_rows nc rows) = nc"
  by (simp add: transpose_rows_def)

lemma transpose_rows_nth:
  "j < nc \<Longrightarrow> transpose_rows nc rows ! j = map (\<lambda>r. r ! j) rows"
  by (simp add: transpose_rows_def)

lemma qkv_decompose:
  assumes "0 < (d::nat)" "c < N * 3 * d"
  shows "c div (3 * d) < N \<and> (c div d) mod 3 < 3 \<and> c mod d < d
         \<and> c = (c div (3 * d) * 3 + (c div d) mod 3) * d + c mod d"
proof -
  have "c < N * (3 * d)" using assms(2) by (simp add: mult.assoc)
  then have h: "c div (3 * d) < N"
    using assms(1) by (simp add: less_mult_imp_div_less)
  have "c div (3 * d) = (c div d) div 3"
    by (simp add: div_mult2_eq mult.commute)
  then have "c div (3 * d) * 3 + (c div d) mod 3 = c div d" by simp
  then have "(c div (3 * d) * 3 + (c div d) mod 3) * d + c mod d = c" by simp
  then show ?thesis using h assms(1) by simp
qed
section \<open>The fused-QKV branch of the scale\<close>

lemma qkv_weight_div_rows:
  assumes wf: "wf_mat w" and n: "0 < ncols w" and N: "0 < N" and d: "0 < d"
    and out: "nrows w = N * 3 * d" and s: "length s = N * d"
  shows "qkv_weight_div N w s = Inr (w\<lparr>mrows := div_v_rows d s (mrows w)\<rparr>)"
proof -
  define n where "n = ncols w"
  define W where "W = mrows w"
  define out1 where "out1 = N * 3 * d"
  define wt where "wt = transpose_rows n W"
  define F where "F = concat wt"
  define w3 where "w3 = reshape3 (n * N) 3 d F"
  define sel where "sel = map (\<lambda>blk. blk ! 2) w3"
  define val where "val = reshape2 n (N * d) (concat sel)"
  define q where "q = map (\<lambda>r. map2 fdiv r s) val"
  define new where "new = reshape2 (n * N) d (concat q)"
  define w3' where "w3' = map2 (\<lambda>blk r. list_update blk 2 r) w3 new"
  define G where "G = concat (concat w3')"
  have npos: "0 < n" using n by (simp add: n_def)
  have lenW: "length W = out1" using out by (simp add: W_def nrows_def out1_def)
  have rowlen: "length (W ! c) = n" if "c < out1" for c
    using wf that lenW by (simp add: wf_mat_def list_all_length W_def n_def)
  have wt_rows: "\<forall>r\<in>set wt. length r = out1"
    by (auto simp: wt_def transpose_rows_def lenW)
  have lenwt: "length wt = n" by (simp add: wt_def)
  have lenF: "length F = n * out1"
    using concat_uniform_length [OF wt_rows] by (simp add: F_def lenwt)
  have F_nth: "F ! (r * out1 + c) = W ! c ! r" if "r < n" "c < out1" for r c
  proof -
    have "F ! (r * out1 + c) = wt ! r ! c"
      unfolding F_def using wt_rows that by (intro concat_uniform_nth) (simp_all add: lenwt)
    also have "\<dots> = W ! c ! r"
      using that lenW by (simp add: wt_def transpose_rows_nth)
    finally show ?thesis .
  qed
  have size3: "n * N * (3 * d) = n * out1" by (simp add: out1_def algebra_simps)
  have inf1: "infer_dim (ncols w * (N * 3 * d)) (ncols w * N * 3) = Inr d"
  proof -
    have "ncols w * (N * 3 * d) = (ncols w * N * 3) * d" by (simp add: algebra_simps)
    then show ?thesis using n N by (simp add: infer_dim_def)
  qed
  have inf2: "infer_dim (ncols w * N * d) (ncols w) = Inr (N * d)"
  proof -
    have "ncols w * N * d = ncols w * (N * d)" by (simp add: algebra_simps)
    then show ?thesis using n by (simp add: infer_dim_def)
  qed
  have lenw3: "length w3 = n * N" by (simp add: w3_def)
  have w3_blk: "length (w3 ! i) = 3" if "i < n * N" for i
    using that by (simp add: w3_def reshape3_block_length)
  have bnd3: "n * N * (3 * d) \<le> length F" by (simp only: lenF size3 le_refl)
  have w3_row: "length (w3 ! i ! k) = d" if "i < n * N" "k < 3" for i k
    unfolding w3_def by (rule reshape3_row_length [OF that bnd3])
  have w3_nth: "w3 ! i ! k ! e = F ! (i * (3 * d) + k * d + e)"
    if "i < n * N" "k < 3" "e < d" for i k e
    unfolding w3_def by (rule reshape3_nth [OF that bnd3])
  have lensel: "length sel = n * N" by (simp add: sel_def lenw3)
  have sel_rows: "\<forall>r\<in>set sel. length r = d"
    using w3_row by (auto simp: sel_def in_set_conv_nth lenw3)
  have lencs: "length (concat sel) = n * (N * d)"
    using concat_uniform_length [OF sel_rows] by (simp add: lensel algebra_simps)
  have sel_nth: "concat sel ! (i * d + e) = w3 ! i ! 2 ! e" if "i < n * N" "e < d" for i e
  proof -
    have "concat sel ! (i * d + e) = sel ! i ! e"
      using sel_rows that by (intro concat_uniform_nth) (simp_all add: lensel)
    then show ?thesis using that by (simp add: sel_def lenw3)
  qed
  have lenval: "length val = n" by (simp add: val_def)
  have bndv: "n * (N * d) \<le> length (concat sel)" by (simp only: lencs le_refl)
  have val_row: "length (val ! r) = N * d" if "r < n" for r
    unfolding val_def by (rule reshape2_row_length [OF that bndv])
  have val_nth: "val ! r ! (h * d + e) = w3 ! (r * N + h) ! 2 ! e"
    if "r < n" "h < N" "e < d" for r h e
  proof -
    have hd: "h * d + e < N * d" by (rule idx_bound [OF that(2,3)])
    have rn: "r * N + h < n * N" by (rule idx_bound [OF that(1,2)])
    have "val ! r ! (h * d + e) = concat sel ! (r * (N * d) + (h * d + e))"
      unfolding val_def by (rule reshape2_nth [OF that(1) hd bndv])
    also have "r * (N * d) + (h * d + e) = (r * N + h) * d + e" by (simp add: algebra_simps)
    also have "concat sel ! ((r * N + h) * d + e) = w3 ! (r * N + h) ! 2 ! e"
      by (rule sel_nth [OF rn that(3)])
    finally show ?thesis .
  qed
  have lenq: "length q = n" by (simp add: q_def lenval)
  have q_rows: "\<forall>r\<in>set q. length r = N * d"
    using val_row s by (auto simp: q_def in_set_conv_nth lenval)
  have lencq: "length (concat q) = n * N * d"
    using concat_uniform_length [OF q_rows] by (simp add: lenq algebra_simps)
  have q_nth: "q ! r ! j = fdiv (val ! r ! j) (s ! j)" if "r < n" "j < N * d" for r j
    using that val_row [OF that(1)] s by (simp add: q_def lenval)
  have lennew: "length new = n * N" by (simp add: new_def)
  have bndq: "n * N * d \<le> length (concat q)" by (simp only: lencq le_refl)
  have new_row: "length (new ! i) = d" if "i < n * N" for i
    unfolding new_def by (rule reshape2_row_length [OF that bndq])
  have new_nth: "new ! (r * N + h) ! e = fdiv (w3 ! (r * N + h) ! 2 ! e) (s ! (h * d + e))"
    if "r < n" "h < N" "e < d" for r h e
  proof -
    have hd: "h * d + e < N * d" by (rule idx_bound [OF that(2,3)])
    have rn: "r * N + h < n * N" by (rule idx_bound [OF that(1,2)])
    have "new ! (r * N + h) ! e = concat q ! ((r * N + h) * d + e)"
      unfolding new_def by (rule reshape2_nth [OF rn that(3) bndq])
    also have "(r * N + h) * d + e = r * (N * d) + (h * d + e)" by (simp add: algebra_simps)
    also have "concat q ! (r * (N * d) + (h * d + e)) = q ! r ! (h * d + e)"
      using q_rows that(1) hd by (intro concat_uniform_nth) (simp_all add: lenq)
    also have "\<dots> = fdiv (val ! r ! (h * d + e)) (s ! (h * d + e))"
      by (rule q_nth [OF that(1) hd])
    finally show ?thesis by (simp add: val_nth [OF that])
  qed
  have lenw3': "length w3' = n * N" by (simp add: w3'_def lenw3 lennew)
  have w3'_blk: "w3' ! i = (w3 ! i)[2 := new ! i]" if "i < n * N" for i
    using that by (simp add: w3'_def lenw3 lennew)
  have cw3'_rows: "\<forall>r\<in>set (concat w3'). length r = d"
  proof
    fix r assume "r \<in> set (concat w3')"
    then obtain b where b: "b \<in> set w3'" and rb: "r \<in> set b" by auto
    from b obtain i where i: "i < n * N" and bi: "b = w3' ! i"
      by (auto simp: in_set_conv_nth lenw3')
    have lenb: "length b = 3" using w3_blk [OF i] by (simp add: bi w3'_blk [OF i])
    from rb obtain k where k: "k < 3" and rk: "r = w3' ! i ! k"
      using lenb by (auto simp: in_set_conv_nth bi)
    show "length r = d"
      using i k w3_row [OF i k] new_row [OF i] w3_blk [OF i]
      by (cases "k = 2") (simp_all add: rk w3'_blk nth_list_update)
  qed
  have w3'_blks: "\<forall>b\<in>set w3'. length b = 3"
    using w3_blk by (auto simp: in_set_conv_nth lenw3' w3'_blk)
  have lencw3': "length (concat w3') = n * N * 3"
    using concat_uniform_length [OF w3'_blks] by (simp add: lenw3')
  have lenG: "length G = n * out1"
    using concat_uniform_length [OF cw3'_rows] size3
    by (simp add: G_def lencw3' algebra_simps)
  have G_nth: "G ! (r * out1 + ((h * 3 + k) * d + e))
               = (if k = 2 then fdiv (W ! ((h * 3 + k) * d + e) ! r) (s ! (h * d + e))
                  else W ! ((h * 3 + k) * d + e) ! r)"
    if "r < n" "h < N" "k < 3" "e < d" for r h k e
  proof -
    let ?i = "r * N + h"
    let ?c = "(h * 3 + k) * d + e"
    have rn: "?i < n * N" by (rule idx_bound [OF that(1,2)])
    have ik: "?i * 3 + k < n * N * 3" by (rule idx_bound [OF rn that(3)])
    have hk: "h * 3 + k < N * 3" by (rule idx_bound [OF that(2,3)])
    have c: "?c < out1" unfolding out1_def by (rule idx_bound [OF hk that(4)])
    have idx: "r * out1 + ?c = (?i * 3 + k) * d + e"
      by (simp add: out1_def algebra_simps)
    have idx2: "?i * (3 * d) + k * d + e = r * out1 + ?c"
      by (simp add: out1_def algebra_simps)
    have "G ! (r * out1 + ?c) = concat w3' ! (?i * 3 + k) ! e"
      unfolding G_def idx using cw3'_rows ik that(4)
      by (intro concat_uniform_nth) (simp_all add: lencw3')
    also have "concat w3' ! (?i * 3 + k) = w3' ! ?i ! k"
      using w3'_blks rn that(3) by (intro concat_uniform_nth) (simp_all add: lenw3')
    also have "w3' ! ?i ! k = (if k = 2 then new ! ?i else w3 ! ?i ! k)"
      using that(3) w3_blk [OF rn] by (simp add: w3'_blk [OF rn] nth_list_update)
    finally have g: "G ! (r * out1 + ?c) = (if k = 2 then new ! ?i else w3 ! ?i ! k) ! e" .
    have orig: "w3 ! ?i ! k ! e = W ! ?c ! r"
      using w3_nth [OF rn that(3,4)] F_nth [OF that(1) c] by (simp add: idx2)
    show ?thesis
    proof (cases "k = 2")
      case True
      then show ?thesis using g new_nth [OF that(1,2,4)] orig by simp
    next
      case False
      then show ?thesis using g orig by simp
    qed
  qed
  have res: "qkv_weight_div N w s
             = Inr (w\<lparr>mrows := transpose_rows out1 (reshape2 n out1 G)\<rparr>)"
    using lencq s
    unfolding G_def w3'_def new_def q_def val_def sel_def w3_def F_def wt_def W_def n_def
      out1_def
    by (simp add: qkv_weight_div_def Let_def inf1 inf2 bcast2_rows_def out)
  have "transpose_rows out1 (reshape2 n out1 G) = div_v_rows d s W"
  proof (rule nth_equalityI)
    show "length (transpose_rows out1 (reshape2 n out1 G)) = length (div_v_rows d s W)"
      by (simp add: div_v_rows_def lenW)
  next
    fix c assume "c < length (transpose_rows out1 (reshape2 n out1 G))"
    then have c: "c < out1" by simp
    define h where "h = c div (3 * d)"
    define k where "k = (c div d) mod 3"
    define e where "e = c mod d"
    have dec: "h < N \<and> k < 3 \<and> e < d \<and> c = (h * 3 + k) * d + e"
      unfolding h_def k_def e_def by (rule qkv_decompose [OF d c [unfolded out1_def]])
    note hke = dec [THEN conjunct1] dec [THEN conjunct2, THEN conjunct1]
      dec [THEN conjunct2, THEN conjunct2, THEN conjunct1]
      dec [THEN conjunct2, THEN conjunct2, THEN conjunct2]
    have lhs: "transpose_rows out1 (reshape2 n out1 G) ! c = map (\<lambda>r. G ! (r * out1 + c)) [0..<n]"
    proof (rule nth_equalityI)
      show "length (transpose_rows out1 (reshape2 n out1 G) ! c)
            = length (map (\<lambda>r. G ! (r * out1 + c)) [0..<n])"
        using c by (simp add: transpose_rows_nth)
    next
      fix r assume "r < length (transpose_rows out1 (reshape2 n out1 G) ! c)"
      then have r: "r < n" using c by (simp add: transpose_rows_nth)
      have bndG: "n * out1 \<le> length G" by (simp only: lenG le_refl)
      show "transpose_rows out1 (reshape2 n out1 G) ! c ! r
            = map (\<lambda>r. G ! (r * out1 + c)) [0..<n] ! r"
        using r c by (simp add: transpose_rows_nth reshape2_nth [OF r c bndG])
    qed
    have rhs: "div_v_rows d s W ! c
               = (if k = 2 then map (\<lambda>x. fdiv x (s ! (h * d + e))) (W ! c) else W ! c)"
      using c lenW by (simp add: div_v_rows_def qkv_part_def qkv_scale_index_def h_def k_def e_def)
    show "transpose_rows out1 (reshape2 n out1 G) ! c = div_v_rows d s W ! c"
    proof (rule nth_equalityI)
      show "length (transpose_rows out1 (reshape2 n out1 G) ! c) = length (div_v_rows d s W ! c)"
        using rowlen [OF c] by (simp add: lhs rhs)
    next
      fix r assume "r < length (transpose_rows out1 (reshape2 n out1 G) ! c)"
      then have r: "r < n" by (simp add: lhs)
      have Gc: "G ! (r * out1 + c)
                = (if k = 2 then fdiv (W ! c ! r) (s ! (h * d + e)) else W ! c ! r)"
        using G_nth [OF r hke(1,2,3)] by (simp only: hke(4) [symmetric])
      show "transpose_rows out1 (reshape2 n out1 G) ! c ! r = div_v_rows d s W ! c ! r"
        using r rowlen [OF c] Gc by (simp add: lhs rhs)
    qed
  qed
  then show ?thesis using res by (simp add: W_def)
qed
lemma qkv_bias_div_entries:
  assumes N: "0 < N" and d: "0 < d"
    and len: "length (vdata b) = N * 3 * d" and s: "length s = N * d"
  shows "qkv_bias_op fdiv N b s = Inr (b\<lparr>vdata := div_v_entries d s (vdata b)\<rparr>)"
proof -
  define B where "B = vdata b"
  define b3 where "b3 = reshape3 N 3 d B"
  define sel where "sel = map (\<lambda>blk. blk ! 2) b3"
  define q where "q = map2 fdiv (concat sel) s"
  define new where "new = reshape2 N d q"
  define b3' where "b3' = map2 (\<lambda>blk r. list_update blk 2 r) b3 new"
  define G where "G = concat (concat b3')"
  have lenB: "length B = N * 3 * d" using len by (simp add: B_def)
  have bnd3: "N * (3 * d) \<le> length B" by (simp add: lenB algebra_simps)
  have inf1: "infer_dim (N * 3 * d) (N * 3) = Inr d"
    using N by (simp add: infer_dim_def)
  have lenb3: "length b3 = N" by (simp add: b3_def)
  have b3_blk: "length (b3 ! i) = 3" if "i < N" for i
    using that by (simp add: b3_def reshape3_block_length)
  have b3_row: "length (b3 ! i ! k) = d" if "i < N" "k < 3" for i k
    unfolding b3_def by (rule reshape3_row_length [OF that bnd3])
  have b3_nth: "b3 ! i ! k ! e = B ! (i * (3 * d) + k * d + e)"
    if "i < N" "k < 3" "e < d" for i k e
    unfolding b3_def by (rule reshape3_nth [OF that bnd3])
  have lensel: "length sel = N" by (simp add: sel_def lenb3)
  have sel_rows: "\<forall>r\<in>set sel. length r = d"
    using b3_row by (auto simp: sel_def in_set_conv_nth lenb3)
  have lencs: "length (concat sel) = N * d"
    using concat_uniform_length [OF sel_rows] by (simp add: lensel)
  have sel_nth: "concat sel ! (i * d + e) = b3 ! i ! 2 ! e" if "i < N" "e < d" for i e
  proof -
    have "concat sel ! (i * d + e) = sel ! i ! e"
      using sel_rows that by (intro concat_uniform_nth) (simp_all add: lensel)
    then show ?thesis using that by (simp add: sel_def lenb3)
  qed
  have lenq: "length q = N * d" by (simp add: q_def lencs s)
  have bndq: "N * d \<le> length q" by (simp only: lenq le_refl)
  have q_nth: "q ! j = fdiv (concat sel ! j) (s ! j)" if "j < N * d" for j
    using that by (simp add: q_def lencs s)
  have lennew: "length new = N" by (simp add: new_def)
  have new_row: "length (new ! i) = d" if "i < N" for i
    unfolding new_def by (rule reshape2_row_length [OF that bndq])
  have new_nth: "new ! h ! e = fdiv (b3 ! h ! 2 ! e) (s ! (h * d + e))"
    if "h < N" "e < d" for h e
  proof -
    have hd: "h * d + e < N * d" by (rule idx_bound [OF that])
    have "new ! h ! e = q ! (h * d + e)"
      unfolding new_def by (rule reshape2_nth [OF that bndq])
    then show ?thesis using q_nth [OF hd] sel_nth [OF that] by simp
  qed
  have lenb3': "length b3' = N" by (simp add: b3'_def lenb3 lennew)
  have b3'_blk: "b3' ! i = (b3 ! i)[2 := new ! i]" if "i < N" for i
    using that by (simp add: b3'_def lenb3 lennew)
  have b3'_blks: "\<forall>x\<in>set b3'. length x = 3"
    using b3_blk by (auto simp: in_set_conv_nth lenb3' b3'_blk)
  have lencb3': "length (concat b3') = N * 3"
    using concat_uniform_length [OF b3'_blks] by (simp add: lenb3')
  have cb3'_rows: "\<forall>r\<in>set (concat b3'). length r = d"
  proof
    fix r assume "r \<in> set (concat b3')"
    then obtain x where x: "x \<in> set b3'" and rx: "r \<in> set x" by auto
    from x obtain i where i: "i < N" and xi: "x = b3' ! i"
      by (auto simp: in_set_conv_nth lenb3')
    have lenx: "length x = 3" using b3_blk [OF i] by (simp add: xi b3'_blk [OF i])
    from rx obtain k where k: "k < 3" and rk: "r = b3' ! i ! k"
      using lenx by (auto simp: in_set_conv_nth xi)
    show "length r = d"
      using i k b3_row [OF i k] new_row [OF i] b3_blk [OF i]
      by (cases "k = 2") (simp_all add: rk b3'_blk nth_list_update)
  qed
  have lenG: "length G = N * 3 * d"
    using concat_uniform_length [OF cb3'_rows] by (simp add: G_def lencb3')
  have G_nth: "G ! ((h * 3 + k) * d + e)
               = (if k = 2 then fdiv (B ! ((h * 3 + k) * d + e)) (s ! (h * d + e))
                  else B ! ((h * 3 + k) * d + e))"
    if "h < N" "k < 3" "e < d" for h k e
  proof -
    have hk: "h * 3 + k < N * 3" by (rule idx_bound [OF that(1,2)])
    have idx2: "h * (3 * d) + k * d + e = (h * 3 + k) * d + e" by (simp add: algebra_simps)
    have "G ! ((h * 3 + k) * d + e) = concat b3' ! (h * 3 + k) ! e"
      unfolding G_def using cb3'_rows hk that(3)
      by (intro concat_uniform_nth) (simp_all add: lencb3')
    also have "concat b3' ! (h * 3 + k) = b3' ! h ! k"
      using b3'_blks that(1,2) by (intro concat_uniform_nth) (simp_all add: lenb3')
    also have "b3' ! h ! k = (if k = 2 then new ! h else b3 ! h ! k)"
      using that(2) b3_blk [OF that(1)] by (simp add: b3'_blk [OF that(1)] nth_list_update)
    finally have g: "G ! ((h * 3 + k) * d + e) = (if k = 2 then new ! h else b3 ! h ! k) ! e" .
    have orig: "b3 ! h ! k ! e = B ! ((h * 3 + k) * d + e)"
      using b3_nth [OF that] by (simp add: idx2)
    show ?thesis
    proof (cases "k = 2")
      case True
      then show ?thesis using g new_nth [OF that(1,3)] orig by simp
    next
      case False
      then show ?thesis using g orig by simp
    qed
  qed
  have res: "qkv_bias_op fdiv N b s = Inr (b\<lparr>vdata := G\<rparr>)"
    using lenq lencs s
    unfolding G_def b3'_def new_def q_def sel_def b3_def B_def
    by (simp add: qkv_bias_op_def Let_def inf1 bcast2_def len)
  have "G = div_v_entries d s B"
  proof (rule nth_equalityI)
    show "length G = length (div_v_entries d s B)"
      by (simp add: div_v_entries_def lenG lenB)
  next
    fix c assume "c < length G"
    then have c: "c < N * 3 * d" by (simp add: lenG)
    define h where "h = c div (3 * d)"
    define k where "k = (c div d) mod 3"
    define e where "e = c mod d"
    have dec: "h < N \<and> k < 3 \<and> e < d \<and> c = (h * 3 + k) * d + e"
      unfolding h_def k_def e_def by (rule qkv_decompose [OF d c])
    note hke = dec [THEN conjunct1] dec [THEN conjunct2, THEN conjunct1]
      dec [THEN conjunct2, THEN conjunct2, THEN conjunct1]
      dec [THEN conjunct2, THEN conjunct2, THEN conjunct2]
    have Gc: "G ! c = (if k = 2 then fdiv (B ! c) (s ! (h * d + e)) else B ! c)"
      using G_nth [OF hke(1,2,3)] by (simp only: hke(4) [symmetric])
    have rhs: "div_v_entries d s B ! c
               = (if k = 2 then fdiv (B ! c) (s ! (h * d + e)) else B ! c)"
      using c lenB
      by (simp add: div_v_entries_def qkv_part_def qkv_scale_index_def h_def k_def e_def)
    show "G ! c = div_v_entries d s B ! c" by (simp add: Gc rhs)
  qed
  then show ?thesis using res by (simp add: B_def)
qed
lemma mul_cols_by_eq:
  "ncols (weight fc2) = length s
   \<Longrightarrow> then_res (mat_cols_inplace fmul (weight fc2) s) (\<lambda>w2. Inr (x, fc2\<lparr>weight := w2\<rparr>))
       = Inr (x, mul_cols_by s fc2)"
  by (simp add: mat_cols_inplace_def mul_cols_by_def)

lemma one_head_last_third:
  assumes "0 < d" "c < 3 * d"
  shows "qkv_part d c = 2 \<longleftrightarrow> 2 * d \<le> c"
proof -
  have lt: "c div d < 3" using assms by (simp add: less_mult_imp_div_less mult.commute)
  have "c div d = 2 \<longleftrightarrow> 2 * d \<le> c"
  proof
    assume "c div d = 2"
    then have "2 * d \<le> c div d * d" by simp
    also have "\<dots> \<le> c" by simp
    finally show "2 * d \<le> c" .
  next
    assume "2 * d \<le> c"
    then have "2 \<le> c div d" using assms(1) by (simp add: less_eq_div_iff_mult_less_eq)
    then show "c div d = 2" using lt by simp
  qed
  then show ?thesis using lt by (simp add: qkv_part_def)
qed

text \<open>
  C4, amended.  When \<open>fc1.out_features = 3 * fc2.in_features\<close>, with \<open>num_heads\<close> heads
  of width \<open>d\<close> making up the input of \<open>fc2\<close>, \<open>scale_fc_fc\<close> divides by the scale of its
  head and offset every output row (weight and bias) of \<open>fc1\<close> that is in the V part of
  the triple (Q, K, V) of its head, and leaves the other rows as they are; the columns
  of \<open>fc2\<close> are multiplied by the scales.  With one head, the rows divided are the last
  third of the rows.
\<close>

theorem scale_fc_fc_fused_qkv:
  assumes "wf_linear fc1" "0 < in_features fc1" "0 < num_heads" "0 < d"
    and "in_features fc2 = num_heads * d"
    and "out_features fc1 = in_features fc2 * 3"
    and "ncols (weight fc2) = in_features fc2"
    and "length (vdata scales) = in_features fc2"
  shows "scale_fc_fc num_heads fc1 fc2 scales
           = Inr (fc1\<lparr>weight := (weight fc1)
                        \<lparr>mrows := div_v_rows d (vdata scales) (mrows (weight fc1))\<rparr>,
                      bias := map_bias (div_v_entries d (vdata scales)) (bias fc1)\<rparr>,
                  mul_cols_by (vdata scales) fc2)
         \<and> (num_heads = 1
            \<longrightarrow> (\<forall>c < out_features fc1. qkv_part d c = 2 \<longleftrightarrow> 2 * in_features fc2 \<le> c))"
proof
  have wf: "wf_mat (weight fc1)" and nc: "0 < ncols (weight fc1)"
    and nr: "nrows (weight fc1) = num_heads * 3 * d"
    using assms by (simp_all add: wf_linear_def algebra_simps)
  have s: "length (vdata scales) = num_heads * d" using assms by simp
  note w = qkv_weight_div_rows [OF wf nc assms(3,4) nr s]
  have cols: "ncols (weight fc2) = length (vdata scales)" using assms by simp
  show "scale_fc_fc num_heads fc1 fc2 scales
           = Inr (fc1\<lparr>weight := (weight fc1)
                        \<lparr>mrows := div_v_rows d (vdata scales) (mrows (weight fc1))\<rparr>,
                      bias := map_bias (div_v_entries d (vdata scales)) (bias fc1)\<rparr>,
                  mul_cols_by (vdata scales) fc2)"
  proof (cases "bias_vec (bias fc1)")
    case None
    then show ?thesis
      using assms(6) w mul_cols_by_eq [OF cols]
      by (simp add: scale_fc_fc_def map_bias_def)
  next
    case (Some b)
    then have "length (vdata b) = num_heads * 3 * d"
      using assms by (simp add: wf_linear_def algebra_simps)
    note bb = qkv_bias_div_entries [OF assms(3,4) this s]
    show ?thesis
      using assms(6) w bb Some mul_cols_by_eq [OF cols]
      by (simp add: scale_fc_fc_def map_bias_def)
  qed
next
  show "num_heads = 1
        \<longrightarrow> (\<forall>c < out_features fc1. qkv_part d c = 2 \<longleftrightarrow> 2 * in_features fc2 \<le> c)"
    using assms one_head_last_third [of d] by (auto simp: mult.commute)
qed

lemma fused12_shape:
  "wf_linear fused12 \<and> 0 < in_features fused12 \<and> in_features after_fused = 1 * 4
   \<and> out_features fused12 = in_features after_fused * 3
   \<and> ncols (weight after_fused) = in_features after_fused
   \<and> length (vdata (vec_of Float32 [2, 4, 8, 16])) = in_features after_fused"
  by (simp add: fused12_def after_fused_def linear_of_def vec_of_def wf_linear_def wf_mat_def
        nrows_def)

lemma fused12_one_head_rows:
  "div_v_rows 4 (vdata (vec_of Float32 [2, 4, 8, 16])) (mrows (weight fused12))
   = map (map Fin) [[1], [1], [1], [1], [1], [1], [1], [1], [1 / 2], [1 / 4], [1 / 8], [1 / 16]]"
  by code_simp

lemma fused12_one_head_bias:
  "map_bias (div_v_entries 4 (vdata (vec_of Float32 [2, 4, 8, 16]))) (bias fused12)
   = BiasParam (vec_of Float32 [1, 1, 1, 1, 1, 1, 1, 1, 1 / 2, 1 / 4, 1 / 8, 1 / 16])"
  by code_simp

lemma after_fused_cols:
  "mul_cols_by (vdata (vec_of Float32 [2, 4, 8, 16])) after_fused
   = linear_of Float32 4 [[2, 4, 8, 16]]"
  by code_simp

theorem scale_fc_fc_fused_qkv_one_head_example:
  "wf_linear fused12 \<and> 0 < in_features fused12 \<and> in_features after_fused = 1 * 4
   \<and> out_features fused12 = in_features after_fused * 3
   \<and> ncols (weight after_fused) = in_features after_fused
   \<and> length (vdata (vec_of Float32 [2, 4, 8, 16])) = in_features after_fused
   \<and> scale_fc_fc 1 fused12 after_fused (vec_of Float32 [2, 4, 8, 16])
     = Inr ((linear_of Float32 1
               [[1], [1], [1], [1], [1], [1], [1], [1], [1 / 2], [1 / 4], [1 / 8], [1 / 16]])
              \<lparr>bias := BiasParam (vec_of Float32
                 [1, 1, 1, 1, 1, 1, 1, 1, 1 / 2, 1 / 4, 1 / 8, 1 / 16])\<rparr>,
            linear_of Float32 4 [[2, 4, 8, 16]])"
proof -
  note sh = fused12_shape
  have "scale_fc_fc 1 fused12 after_fused (vec_of Float32 [2, 4, 8, 16])
        = Inr (fused12\<lparr>weight := (weight fused12)
                 \<lparr>mrows := div_v_rows 4 (vdata (vec_of Float32 [2, 4, 8, 16]))
                              (mrows (weight fused12))\<rparr>,
               bias := map_bias (div_v_entries 4 (vdata (vec_of Float32 [2, 4, 8, 16])))
                         (bias fused12)\<rparr>,
               mul_cols_by (vdata (vec_of Float32 [2, 4, 8, 16])) after_fused)"
    using scale_fc_fc_fused_qkv
            [where ?fc1.0 = fused12 and ?fc2.0 = after_fused and num_heads = 1 and d = 4
               and scales = "vec_of Float32 [2, 4, 8, 16]"] sh
    by simp
  then have "scale_fc_fc 1 fused12 after_fused (vec_of Float32 [2, 4, 8, 16])
     = Inr ((linear_of Float32 1
               [[1], [1], [1], [1], [1], [1], [1], [1], [1 / 2], [1 / 4], [1 / 8], [1 / 16]])
              \<lparr>bias := BiasParam (vec_of Float32
                 [1, 1, 1, 1, 1, 1, 1, 1, 1 / 2, 1 / 4, 1 / 8, 1 / 16])\<rparr>,
            linear_of Float32 4 [[2, 4, 8, 16]])"
    unfolding fused12_one_head_rows fused12_one_head_bias after_fused_cols
    by (simp add: fused12_def linear_of_def)
  then show ?thesis using sh by simp
qed

text \<open>
  C4 as stated fails with two heads: of the twelve output rows, the rows 4, 5, 10 and
  11 are divided, and the rows 8 and 9 of the last third are not.
\<close>

theorem scale_fc_fc_fused_qkv_two_heads:
  "scale_fc_fc 2 fused12 after_fused (vec_of Float32 [2, 4, 8, 16])
     = Inr ((linear_of Float32 1
               [[1], [1], [1], [1], [1 / 2], [1 / 4], [1], [1], [1], [1], [1 / 8], [1 / 16]])
              \<lparr>bias := BiasParam (vec_of Float32
                 [1, 1, 1, 1, 1 / 2, 1 / 4, 1, 1, 1, 1, 1 / 8, 1 / 16])\<rparr>,
            linear_of Float32 4 [[2, 4, 8, 16]])"
  by code_simp

section \<open>The rotations by an orthogonal matrix\<close>



lemma rotate_pre_layer_dtype:
  "mdtype Q \<noteq> Float64 \<Longrightarrow> rotate_pre_layer Q l = Inl RuntimeError"
  by (simp add: rotate_pre_layer_def matmul_def mat_to_def Let_def)


lemma rotate_post_layer_dtype:
  "mdtype Q \<noteq> Float64 \<Longrightarrow> rotate_post_layer exact_had_fn online_rotate exact_had Q l
     = Inl RuntimeError"
  by (simp add: rotate_post_layer_def matmul_def mat_T_def mat_to_def Let_def)
















end
